theory Spec2Isabelle
  imports Complex_Main
begin

section \<open>The modelling layer, as the notebook calls it\<close>

text \<open>
  The notebook \<^verbatim>\<open>gibbs_reactor_src.ipynb\<close> is a straight-line script over an
  equation-oriented modelling layer: it declares variables, constraints, expressions, an
  objective and arcs on one model object, fixes and unfixes variables, sets bounds, and calls
  an initialiser and a solver. The model object is a record that every statement takes and
  returns; a Python exception is a value of \<open>error\<close>, and a statement returns
  \<open>error + model\<close>.

  The unit models themselves (feed, mixer, compressor, heater, Gibbs reactor, product), the
  property package, the initialisers and the solver are not part of the notebook: they are the
  fields of the record \<open>framework\<close> below, and a theorem says which of their properties it
  uses.
\<close>

datatype error =
    AssertionError | AttributeError | KeyError | ValueError
  | FrameworkError string

definition bnd :: "error + 'a \<Rightarrow> ('a \<Rightarrow> error + 'b) \<Rightarrow> error + 'b" where
  "bnd r f = (case r of Inl e \<Rightarrow> Inl e | Inr x \<Rightarrow> f x)"

definition py_assert :: "bool \<Rightarrow> error + unit" where
  "py_assert b = (if b then Inr () else Inl AssertionError)"

subsection \<open>Names of variables\<close>

text \<open>
  \<^verbatim>\<open>get_prop(components=["CH4", "H2O", "H2", "CO", "CO2"])\<close>: the five species, in the
  order of the list.
\<close>

datatype species = CH4 | H2O | H2 | CO | CO2

definition components :: "species list" where
  "components = [CH4, H2O, H2, CO, CO2]"

text \<open>
  The seven unit models \<^verbatim>\<open>m.fs.CH4\<close>, \<^verbatim>\<open>m.fs.H2O\<close>, \<^verbatim>\<open>m.fs.PROD\<close>,
  \<^verbatim>\<open>m.fs.M101\<close>, \<^verbatim>\<open>m.fs.H101\<close>, \<^verbatim>\<open>m.fs.C101\<close>, \<^verbatim>\<open>m.fs.R101\<close>, the port names
  the notebook uses, and the four members of a port: every stream has one molar flow, five
  mole fractions, one temperature and one pressure.
\<close>

datatype unit_model = fs_CH4 | fs_H2O | fs_PROD | fs_M101 | fs_H101 | fs_C101 | fs_R101

datatype port = outlet | inlet | methane_feed | steam_feed

datatype state_var = flow_mol | mole_frac_comp | temperature | pressure

datatype attribute =
    efficiency_isentropic | work_isentropic | heat_duty | conversion
  | internal nat
  | replaced attribute

text \<open>
  A variable component is reached by an attribute path: \<^verbatim>\<open>m.fs.U.p.member\<close> for a port
  member, \<^verbatim>\<open>m.fs.U.attr\<close> for a variable of the unit itself (\<open>internal k\<close> stands for a
  variable of a unit that the notebook never names, and \<open>replaced a\<close> for the variable that
  \<open>a\<close> named before the name was assigned to a new one). A component is indexed: by the
  time point (the flowsheet is built with \<^verbatim>\<open>dynamic=False\<close>, so the only time point is
  0), by time point and species, or not at all (a scalar variable).
\<close>

datatype component =
    Port_member unit_model port state_var
  | Unit_attr unit_model attribute

datatype index = Unindexed | Time nat | Time_comp nat species

type_synonym var_id = "component \<times> index"

record var_data =
  val :: "real option"
  fixed :: bool
  lb :: "real option"
  ub :: "real option"

subsection \<open>Expressions, constraints, arcs and the model\<close>

datatype expr =
    Number real
  | Var var_id
  | Add expr expr
  | Sub expr expr
  | Mul expr expr

fun identify_variables :: "expr \<Rightarrow> var_id list" where
  "identify_variables (Number c) = []"
| "identify_variables (Var v) = [v]"
| "identify_variables (Add a b) = identify_variables a @ identify_variables b"
| "identify_variables (Sub a b) = identify_variables a @ identify_variables b"
| "identify_variables (Mul a b) = identify_variables a @ identify_variables b"

fun eval :: "(var_id \<Rightarrow> real) \<Rightarrow> expr \<Rightarrow> real" where
  "eval x (Number c) = c"
| "eval x (Var v) = x v"
| "eval x (Add a b) = eval x a + eval x b"
| "eval x (Sub a b) = eval x a - eval x b"
| "eval x (Mul a b) = eval x a * eval x b"

record constraint =
  body_lhs :: expr
  body_rhs :: expr
  equality :: bool
  active :: bool

datatype sense = minimize | maximize

record arc =
  source :: "unit_model \<times> port"
  destination :: "unit_model \<times> port"
  expanded :: bool

record model =
  vars :: "component \<Rightarrow> (index \<Rightarrow> var_data option) option"
  constraints :: "(string \<times> constraint) list"
  expressions :: "(string \<times> expr) list"
  objectives :: "(string \<times> expr \<times> sense) list"
  arcs :: "(string \<times> arc) list"

definition lookup_var :: "model \<Rightarrow> var_id \<Rightarrow> error + var_data" where
  "lookup_var m v =
     (case vars m (fst v) of
        None \<Rightarrow> Inl AttributeError
      | Some im \<Rightarrow> (case im (snd v) of None \<Rightarrow> Inl KeyError | Some d \<Rightarrow> Inr d))"

definition declared :: "model \<Rightarrow> var_id \<Rightarrow> bool" where
  "declared m v = (case lookup_var m v of Inl e \<Rightarrow> False | Inr d \<Rightarrow> True)"

definition is_fixed :: "model \<Rightarrow> var_id \<Rightarrow> bool" where
  "is_fixed m v = (case lookup_var m v of Inl e \<Rightarrow> False | Inr d \<Rightarrow> fixed d)"

definition value_of_var :: "model \<Rightarrow> var_id \<Rightarrow> real option" where
  "value_of_var m v = (case lookup_var m v of Inl e \<Rightarrow> None | Inr d \<Rightarrow> val d)"

definition bounds_of :: "model \<Rightarrow> var_id \<Rightarrow> error + real option \<times> real option" where
  "bounds_of m v = bnd (lookup_var m v) (\<lambda>d. Inr (lb d, ub d))"

text \<open>
  Building an expression reads each variable it names: a missing component raises
  AttributeError, a missing index KeyError, at the first variable that is missing.
\<close>

fun check_declared :: "model \<Rightarrow> var_id list \<Rightarrow> error + unit" where
  "check_declared m [] = Inr ()"
| "check_declared m (v # vs) = bnd (lookup_var m v) (\<lambda>d. check_declared m vs)"

text \<open>
  \<^verbatim>\<open>value(e)\<close>: the expression at the variables' current values; ValueError when a variable
  has none.
\<close>

definition current :: "model \<Rightarrow> var_id \<Rightarrow> real" where
  "current m v = (case value_of_var m v of None \<Rightarrow> 0 | Some x \<Rightarrow> x)"

definition value_of :: "model \<Rightarrow> expr \<Rightarrow> error + real" where
  "value_of m e =
     (if list_all (\<lambda>v. value_of_var m v \<noteq> None) (identify_variables e)
      then Inr (eval (current m) e) else Inl ValueError)"

subsection \<open>Statements\<close>

datatype stmt =
    Fix_at var_id real
  | Fix component real
  | Unfix component
  | Setlb var_id real
  | Setub var_id real
  | New_Var unit_model attribute real real real
  | New_Constraint string expr expr
  | New_Expression string expr
  | New_Objective string expr
  | New_Arc string "unit_model \<times> port" "unit_model \<times> port"
  | Expand_arcs

text \<open>
  \<open>Fix_at (X, i) c\<close> is \<^verbatim>\<open>X[i].fix(c)\<close>; \<open>Fix X c\<close> is \<^verbatim>\<open>X.fix(c)\<close>, which fixes
  every index of \<open>X\<close>; \<open>Unfix X\<close> is \<^verbatim>\<open>X.unfix()\<close>; \<open>Setlb\<close> and \<open>Setub\<close> are
  \<^verbatim>\<open>X[i].setlb(c)\<close> and \<^verbatim>\<open>X[i].setub(c)\<close>; \<open>New_Var U a c l u\<close> is
  \<^verbatim>\<open>m.fs.U.a = Var(initialize=c, bounds=(l, u))\<close>, a scalar variable;
  \<open>New_Constraint n a b\<close> is \<^verbatim>\<open>n = Constraint(expr= a == b)\<close>;
  \<open>New_Objective n e\<close> is \<^verbatim>\<open>n = Objective(expr=e)\<close>, whose sense is to minimize when
  none is given; \<open>New_Arc n s d\<close> is \<^verbatim>\<open>n = Arc(source=s, destination=d)\<close>; \<open>Expand_arcs\<close>
  is \<^verbatim>\<open>TransformationFactory("network.expand_arcs").apply_to(m)\<close>.
\<close>

definition upd_at :: "var_id \<Rightarrow> (var_data \<Rightarrow> var_data) \<Rightarrow> model \<Rightarrow> error + model" where
  "upd_at v f m =
     (case vars m (fst v) of
        None \<Rightarrow> Inl AttributeError
      | Some im \<Rightarrow>
          (case im (snd v) of
             None \<Rightarrow> Inl KeyError
           | Some d \<Rightarrow> Inr (m\<lparr>vars := (vars m)(fst v \<mapsto> im(snd v \<mapsto> f d))\<rparr>)))"

definition upd_all :: "component \<Rightarrow> (var_data \<Rightarrow> var_data) \<Rightarrow> model \<Rightarrow> error + model" where
  "upd_all c f m =
     (case vars m c of
        None \<Rightarrow> Inl AttributeError
      | Some im \<Rightarrow> Inr (m\<lparr>vars := (vars m)(c \<mapsto> (\<lambda>i. map_option f (im i)))\<rparr>))"

definition has_port :: "model \<Rightarrow> unit_model \<times> port \<Rightarrow> bool" where
  "has_port m p =
     list_all (\<lambda>sv. vars m (Port_member (fst p) (snd p) sv) \<noteq> None)
       [flow_mol, mole_frac_comp, temperature, pressure]"

text \<open>
  The index set of a port member: the time points for flow, temperature and pressure, the
  time points and species for the mole fractions.
\<close>

fun member_indices :: "state_var \<Rightarrow> index list" where
  "member_indices mole_frac_comp = map (Time_comp 0) components"
| "member_indices sv = [Time 0]"

definition port_vars :: "unit_model \<times> port \<Rightarrow> var_id list" where
  "port_vars p =
     concat (map (\<lambda>sv. map (\<lambda>i. (Port_member (fst p) (snd p) sv, i)) (member_indices sv))
       [flow_mol, mole_frac_comp, temperature, pressure])"

text \<open>
  Expanding an arc writes one equality constraint for each member and index of the two
  ports, between the source's variable and the destination's.
\<close>

definition arc_equalities :: "string \<times> arc \<Rightarrow> (string \<times> constraint) list" where
  "arc_equalities a =
     map (\<lambda>(s, d). (fst a @ ''_expanded'',
            \<lparr>body_lhs = Var s, body_rhs = Var d, equality = True, active = True\<rparr>))
       (zip (port_vars (source (snd a))) (port_vars (destination (snd a))))"

definition expand_arcs :: "model \<Rightarrow> model" where
  "expand_arcs m =
     m\<lparr>constraints :=
         constraints m @ concat (map arc_equalities (filter (\<lambda>a. \<not> expanded (snd a)) (arcs m))),
       arcs := map (\<lambda>(n, a). (n, a\<lparr>expanded := True\<rparr>)) (arcs m)\<rparr>"

text \<open>
  A new component is assigned to an attribute of a block. The right-hand side is built
  first. When the block already has a component of that name, the assignment replaces it:
  the modelling layer logs a warning and raises nothing, deletes the old component and adds
  the new one last. \<open>component_names\<close> lists the names of the constraints, expressions,
  objectives and arcs; \<open>del_component n\<close> deletes the ones named \<open>n\<close>. A variable is named
  by its attribute path and the other components by a string; the script gives no variable
  the name of another component, and the model keeps the two kinds of name apart.
\<close>

definition component_names :: "model \<Rightarrow> string list" where
  "component_names m =
     map fst (constraints m) @ map fst (expressions m) @ map fst (objectives m) @
     map fst (arcs m)"

definition del_component :: "string \<Rightarrow> model \<Rightarrow> model" where
  "del_component n m =
     m\<lparr>constraints := filter (\<lambda>c. fst c \<noteq> n) (constraints m),
       expressions := filter (\<lambda>c. fst c \<noteq> n) (expressions m),
       objectives := filter (\<lambda>c. fst c \<noteq> n) (objectives m),
       arcs := filter (\<lambda>c. fst c \<noteq> n) (arcs m)\<rparr>"

text \<open>
  A variable that is deleted stays in every expression that was built from it: an
  expression holds the object, not the name. \<open>del_var u a\<close> frees the name \<open>a\<close> of the
  unit \<open>u\<close>: the variable that \<open>a\<close> names becomes \<open>replaced a\<close>, in the model and in every
  expression, and so does, one step further, each variable that the name stood for before.
\<close>

fun named_before :: "attribute \<Rightarrow> attribute \<Rightarrow> bool" where
  "named_before a (replaced b) = (a = replaced b \<or> named_before a b)"
| "named_before a b = (a = b)"

fun retire :: "unit_model \<Rightarrow> attribute \<Rightarrow> var_id \<Rightarrow> var_id" where
  "retire u a (Unit_attr u' b, i) =
     (if u' = u \<and> named_before a b then (Unit_attr u (replaced b), i) else (Unit_attr u' b, i))"
| "retire u a (Port_member u' p sv, i) = (Port_member u' p sv, i)"

fun rename :: "(var_id \<Rightarrow> var_id) \<Rightarrow> expr \<Rightarrow> expr" where
  "rename f (Number c) = Number c"
| "rename f (Var v) = Var (f v)"
| "rename f (Add a b) = Add (rename f a) (rename f b)"
| "rename f (Sub a b) = Sub (rename f a) (rename f b)"
| "rename f (Mul a b) = Mul (rename f a) (rename f b)"

fun retired_vars ::
  "unit_model \<Rightarrow> attribute \<Rightarrow> (component \<Rightarrow> (index \<Rightarrow> var_data option) option) \<Rightarrow>
     component \<Rightarrow> (index \<Rightarrow> var_data option) option" where
  "retired_vars u a vs (Unit_attr u' (replaced b)) =
     (if u' = u \<and> named_before a b then vs (Unit_attr u b)
      else if Unit_attr u' (replaced b) = Unit_attr u a then None
      else vs (Unit_attr u' (replaced b)))"
| "retired_vars u a vs X = (if X = Unit_attr u a then None else vs X)"

definition del_var :: "unit_model \<Rightarrow> attribute \<Rightarrow> model \<Rightarrow> model" where
  "del_var u a m =
     m\<lparr>vars := retired_vars u a (vars m),
       constraints :=
         map (\<lambda>c. (fst c, (snd c)\<lparr>body_lhs := rename (retire u a) (body_lhs (snd c)),
                                 body_rhs := rename (retire u a) (body_rhs (snd c))\<rparr>))
           (constraints m),
       expressions := map (\<lambda>c. (fst c, rename (retire u a) (snd c))) (expressions m),
       objectives :=
         map (\<lambda>c. (fst c, rename (retire u a) (fst (snd c)), snd (snd c))) (objectives m)\<rparr>"

definition add_var :: "component \<Rightarrow> var_data \<Rightarrow> model \<Rightarrow> model" where
  "add_var X d m = m\<lparr>vars := (vars m)(X \<mapsto> [Unindexed \<mapsto> d])\<rparr>"

fun exec :: "stmt \<Rightarrow> model \<Rightarrow> error + model" where
  "exec (Fix_at v c) m = upd_at v (\<lambda>d. d\<lparr>val := Some c, fixed := True\<rparr>) m"
| "exec (Fix X c) m = upd_all X (\<lambda>d. d\<lparr>val := Some c, fixed := True\<rparr>) m"
| "exec (Unfix X) m = upd_all X (\<lambda>d. d\<lparr>fixed := False\<rparr>) m"
| "exec (Setlb v c) m = upd_at v (\<lambda>d. d\<lparr>lb := Some c\<rparr>) m"
| "exec (Setub v c) m = upd_at v (\<lambda>d. d\<lparr>ub := Some c\<rparr>) m"
| "exec (New_Var u a c l h) m =
     Inr (add_var (Unit_attr u a) \<lparr>val = Some c, fixed = False, lb = Some l, ub = Some h\<rparr>
            (if vars m (Unit_attr u a) = None then m else del_var u a m))"
| "exec (New_Constraint n a b) m =
     bnd (check_declared m (identify_variables a @ identify_variables b))
       (\<lambda>u. Inr ((del_component n m)\<lparr>constraints := constraints (del_component n m) @
                [(n, \<lparr>body_lhs = a, body_rhs = b, equality = True, active = True\<rparr>)]\<rparr>))"
| "exec (New_Expression n e) m =
     bnd (check_declared m (identify_variables e))
       (\<lambda>u. Inr ((del_component n m)\<lparr>expressions :=
                expressions (del_component n m) @ [(n, e)]\<rparr>))"
| "exec (New_Objective n e) m =
     bnd (check_declared m (identify_variables e))
       (\<lambda>u. Inr ((del_component n m)\<lparr>objectives :=
                objectives (del_component n m) @ [(n, e, minimize)]\<rparr>))"
| "exec (New_Arc n s d) m =
     (if has_port m s \<and> has_port m d
      then Inr ((del_component n m)\<lparr>arcs := arcs (del_component n m) @
                  [(n, \<lparr>source = s, destination = d, expanded = False\<rparr>)]\<rparr>)
      else Inl AttributeError)"
| "exec Expand_arcs m = Inr (expand_arcs m)"

text \<open>A cell is a list of statements; the first exception stops it.\<close>

fun exec_all :: "stmt list \<Rightarrow> model \<Rightarrow> error + model" where
  "exec_all [] m = Inr m"
| "exec_all (s # ss) m = bnd (exec s m) (exec_all ss)"

subsection \<open>Degrees of freedom\<close>

text \<open>
  \<^verbatim>\<open>degrees_of_freedom(m)\<close>: the number of variables that appear in the active equality
  constraints and are not fixed, less the number of active equality constraints.
\<close>

definition activated_equalities :: "model \<Rightarrow> (string \<times> constraint) list" where
  "activated_equalities m = filter (\<lambda>c. active (snd c) \<and> equality (snd c)) (constraints m)"

definition variables_in_activated_equalities :: "model \<Rightarrow> var_id list" where
  "variables_in_activated_equalities m =
     remdups (concat (map (\<lambda>c. identify_variables (body_lhs (snd c)) @
                               identify_variables (body_rhs (snd c)))
       (activated_equalities m)))"

definition degrees_of_freedom :: "model \<Rightarrow> int" where
  "degrees_of_freedom m =
     int (length (filter (\<lambda>v. \<not> is_fixed m v) (variables_in_activated_equalities m)))
     - int (length (activated_equalities m))"

section \<open>The framework\<close>

text \<open>
  What the notebook takes from the process modelling framework, the property package, the
  unit library and the solver. \<open>unit_models\<close> is the model after the cells that create the
  flowsheet block, the property parameters and the seven unit models; \<open>H2_mw\<close> is
  \<^verbatim>\<open>m.fs.thermo_params.H2.mw\<close> in kg/mol; \<open>Mlb_yr_per_kg_s\<close> is the factor of the unit
  conversion from kg/s to \<^verbatim>\<open>Mlb/yr\<close>; \<open>initialize u\<close> is \<^verbatim>\<open>m.fs.u.initialize()\<close> and
  \<open>solve\<close> is \<^verbatim>\<open>solver.solve(m, tee=True)\<close> on the solver of \<^verbatim>\<open>get_solver()\<close>, which give
  values to variables (or raise);
  \<open>report u\<close> is \<^verbatim>\<open>m.fs.u.report()\<close>, which prints (or raises).
\<close>

datatype termination_condition =
    optimal | infeasible | maxIterations | maxTimeLimit | solver_error | unknown

record framework =
  unit_models :: "error + model"
  H2_mw :: real
  Mlb_yr_per_kg_s :: real
  initialize :: "unit_model \<Rightarrow> model \<Rightarrow> error + (var_id \<Rightarrow> real option)"
  solve :: "model \<Rightarrow> error + termination_condition \<times> (var_id \<Rightarrow> real option)"
  report :: "unit_model \<Rightarrow> model \<Rightarrow> error + unit"

text \<open>
  An initialiser and the solver leave the model's structure alone: they give new values to
  variables that are not fixed. \<open>load_values\<close> stores such values.
\<close>

definition load_values :: "(var_id \<Rightarrow> real option) \<Rightarrow> model \<Rightarrow> model" where
  "load_values sol m =
     m\<lparr>vars := (\<lambda>X. map_option
         (\<lambda>im i. map_option
            (\<lambda>d. if fixed d then d
                 else (case sol (X, i) of None \<Rightarrow> d | Some x \<Rightarrow> d\<lparr>val := Some x\<rparr>))
            (im i))
         (vars m X))\<rparr>"

definition solver_solve :: "framework \<Rightarrow> model \<Rightarrow> error + termination_condition \<times> model" where
  "solver_solve fw m = bnd (solve fw m) (\<lambda>r. Inr (fst r, load_values (snd r) m))"

text \<open>
  \<^verbatim>\<open>propagate_state(arc=a)\<close> copies the value of each variable of the arc's source port to
  the matching variable of its destination port, unless that one is fixed.
\<close>

fun copy_values :: "(var_id \<times> var_id) list \<Rightarrow> model \<Rightarrow> error + model" where
  "copy_values [] m = Inr m"
| "copy_values ((s, d) # ps) m =
     bnd (lookup_var m s) (\<lambda>sd.
     bnd (lookup_var m d) (\<lambda>dd.
       if fixed dd then copy_values ps m
       else (case val sd of
               None \<Rightarrow> Inl ValueError
             | Some x \<Rightarrow> bnd (upd_at d (\<lambda>d. d\<lparr>val := Some x\<rparr>) m) (copy_values ps))))"

definition propagate_state :: "string \<Rightarrow> model \<Rightarrow> error + model" where
  "propagate_state n m =
     (case map_of (arcs m) n of
        None \<Rightarrow> Inl AttributeError
      | Some a \<Rightarrow> copy_values (zip (port_vars (source a)) (port_vars (destination a))) m)"

datatype init_step = Initialize unit_model | Propagate_state string

fun init_exec :: "framework \<Rightarrow> init_step \<Rightarrow> model \<Rightarrow> error + model" where
  "init_exec fw (Initialize u) m = bnd (initialize fw u m) (\<lambda>sol. Inr (load_values sol m))"
| "init_exec fw (Propagate_state n) m = propagate_state n m"

fun init_all :: "framework \<Rightarrow> init_step list \<Rightarrow> model \<Rightarrow> error + model" where
  "init_all fw [] m = Inr m"
| "init_all fw (s # ss) m = bnd (init_exec fw s m) (init_all fw ss)"

text \<open>
  \<^verbatim>\<open>a == pytest.approx(e, rel=r)\<close>: within the larger of \<open>r * |e|\<close> and the default
  absolute tolerance \<open>1e-12\<close>, over the reals.
\<close>

definition approx :: "real \<Rightarrow> real \<Rightarrow> real \<Rightarrow> bool" where
  "approx a e r = (\<bar>a - e\<bar> \<le> max (r * \<bar>e\<bar>) (1 / 10 ^ 12))"

definition bar_to_Pa :: "real \<Rightarrow> real" where
  "bar_to_Pa p = p * 10 ^ 5"

section \<open>The notebook, cell by cell\<close>

subsection \<open>Arcs and expressions\<close>

definition cell_14 :: "stmt list" where
  "cell_14 =
     [New_Arc ''fs.s01'' (fs_CH4, outlet) (fs_M101, methane_feed),
      New_Arc ''fs.s02'' (fs_H2O, outlet) (fs_M101, steam_feed),
      New_Arc ''fs.s03'' (fs_M101, outlet) (fs_C101, inlet),
      New_Arc ''fs.s04'' (fs_C101, outlet) (fs_H101, inlet),
      New_Arc ''fs.s05'' (fs_H101, outlet) (fs_R101, inlet),
      New_Arc ''fs.s06'' (fs_R101, outlet) (fs_PROD, inlet)]"

definition cell_16 :: "stmt list" where
  "cell_16 = [Expand_arcs]"

definition hyd_prod :: "framework \<Rightarrow> expr" where
  "hyd_prod fw =
     Mul (Number (Mlb_yr_per_kg_s fw))
       (Mul (Mul (Var (Port_member fs_PROD inlet flow_mol, Time 0))
                 (Var (Port_member fs_PROD inlet mole_frac_comp, Time_comp 0 H2)))
            (Number (H2_mw fw)))"

definition cell_19 :: "framework \<Rightarrow> stmt list" where
  "cell_19 fw = [New_Expression ''fs.hyd_prod'' (hyd_prod fw)]"

definition cooling_cost :: expr where
  "cooling_cost = Mul (Number (0.212 / 10 ^ 7)) (Var (Unit_attr fs_R101 heat_duty, Time 0))"

definition heating_cost :: expr where
  "heating_cost = Mul (Number (2.2 / 10 ^ 7)) (Var (Unit_attr fs_H101 heat_duty, Time 0))"

definition compression_cost :: expr where
  "compression_cost =
     Mul (Number (0.12 / 10 ^ 5)) (Var (Unit_attr fs_C101 work_isentropic, Time 0))"

definition operating_cost :: expr where
  "operating_cost =
     Mul (Number (3600 * 8000)) (Add (Add heating_cost cooling_cost) compression_cost)"

definition cell_20 :: "stmt list" where
  "cell_20 =
     [New_Expression ''fs.cooling_cost'' cooling_cost,
      New_Expression ''fs.heating_cost'' heating_cost,
      New_Expression ''fs.compression_cost'' compression_cost,
      New_Expression ''fs.operating_cost'' operating_cost]"

definition flowsheet :: "framework \<Rightarrow> error + model" where
  "flowsheet fw = bnd (unit_models fw) (exec_all (cell_14 @ cell_16 @ cell_19 fw @ cell_20))"

subsection \<open>The square problem\<close>

definition cell_25 :: "stmt list" where
  "cell_25 =
     [Fix_at (Port_member fs_CH4 outlet mole_frac_comp, Time_comp 0 CH4) 1,
      Fix_at (Port_member fs_CH4 outlet mole_frac_comp, Time_comp 0 H2O) (1 / 10 ^ 5),
      Fix_at (Port_member fs_CH4 outlet mole_frac_comp, Time_comp 0 H2) (1 / 10 ^ 5),
      Fix_at (Port_member fs_CH4 outlet mole_frac_comp, Time_comp 0 CO) (1 / 10 ^ 5),
      Fix_at (Port_member fs_CH4 outlet mole_frac_comp, Time_comp 0 CO2) (1 / 10 ^ 5),
      Fix (Port_member fs_CH4 outlet flow_mol) 75,
      Fix (Port_member fs_CH4 outlet temperature) 298.15,
      Fix (Port_member fs_CH4 outlet pressure) (10 ^ 5),
      Fix_at (Port_member fs_H2O outlet mole_frac_comp, Time_comp 0 CH4) (1 / 10 ^ 5),
      Fix_at (Port_member fs_H2O outlet mole_frac_comp, Time_comp 0 H2O) 1,
      Fix_at (Port_member fs_H2O outlet mole_frac_comp, Time_comp 0 H2) (1 / 10 ^ 5),
      Fix_at (Port_member fs_H2O outlet mole_frac_comp, Time_comp 0 CO) (1 / 10 ^ 5),
      Fix_at (Port_member fs_H2O outlet mole_frac_comp, Time_comp 0 CO2) (1 / 10 ^ 5),
      Fix (Port_member fs_H2O outlet flow_mol) 234,
      Fix (Port_member fs_H2O outlet temperature) 373.15,
      Fix (Port_member fs_H2O outlet pressure) (10 ^ 5)]"

definition cell_27 :: "stmt list" where
  "cell_27 =
     [Fix (Port_member fs_C101 outlet pressure) (bar_to_Pa 2),
      Fix (Unit_attr fs_C101 efficiency_isentropic) 0.90,
      Fix (Port_member fs_H101 outlet temperature) 500]"

definition conv_lhs :: expr where
  "conv_lhs =
     Mul (Mul (Var (Unit_attr fs_R101 conversion, Unindexed))
              (Var (Port_member fs_R101 inlet flow_mol, Time 0)))
         (Var (Port_member fs_R101 inlet mole_frac_comp, Time_comp 0 CH4))"

definition conv_rhs :: expr where
  "conv_rhs =
     Sub (Mul (Var (Port_member fs_R101 inlet flow_mol, Time 0))
              (Var (Port_member fs_R101 inlet mole_frac_comp, Time_comp 0 CH4)))
         (Mul (Var (Port_member fs_R101 outlet flow_mol, Time 0))
              (Var (Port_member fs_R101 outlet mole_frac_comp, Time_comp 0 CH4)))"

definition cell_29 :: "stmt list" where
  "cell_29 =
     [New_Var fs_R101 conversion 0.80 0 1,
      New_Constraint ''fs.R101.conv_constraint'' conv_lhs conv_rhs,
      Fix (Unit_attr fs_R101 conversion) 0.80]"

definition square_problem :: "model \<Rightarrow> error + model" where
  "square_problem m = exec_all (cell_25 @ cell_27 @ cell_29) m"

definition cell_34 :: "init_step list" where
  "cell_34 =
     [Initialize fs_CH4, Propagate_state ''fs.s01'',
      Initialize fs_H2O, Propagate_state ''fs.s02'',
      Initialize fs_M101, Propagate_state ''fs.s03'',
      Initialize fs_C101, Propagate_state ''fs.s04'',
      Initialize fs_H101, Propagate_state ''fs.s05'',
      Initialize fs_R101, Propagate_state ''fs.s06'',
      Initialize fs_PROD]"

subsection \<open>The optimization problem\<close>

definition cell_45 :: "stmt list" where
  "cell_45 = [New_Objective ''fs.objective'' operating_cost]"

definition cell_47 :: "stmt list" where
  "cell_47 =
     [Fix (Unit_attr fs_R101 conversion) 0.90,
      Unfix (Port_member fs_C101 outlet pressure),
      Setlb (Port_member fs_C101 outlet pressure, Time 0) (bar_to_Pa 1),
      Setlb (Port_member fs_C101 outlet pressure, Time 0) (bar_to_Pa 10),
      Unfix (Port_member fs_H101 outlet temperature),
      Setlb (Unit_attr fs_H101 heat_duty, Time 0) 0,
      Setub (Port_member fs_H101 outlet temperature, Time 0) 1000]"

definition optimization_problem :: "model \<Rightarrow> error + model" where
  "optimization_problem m = exec_all (cell_45 @ cell_47) m"

subsection \<open>The run\<close>

text \<open>
  The cells in their order, with their assertions. A \<^verbatim>\<open>print\<close> is not modelled: each one
  prints a value that the next assertion computes again. The notebook has no
  \<^verbatim>\<open>try\<close> statement, so the first exception ends the run.
\<close>

definition assert_value :: "model \<Rightarrow> expr \<Rightarrow> (real \<Rightarrow> real) \<Rightarrow> real \<Rightarrow> error + unit" where
  "assert_value m e f expected =
     bnd (value_of m e) (\<lambda>x. py_assert (approx (f x) expected (1 / 10 ^ 3)))"

definition before_first_solve :: "framework \<Rightarrow> error + model" where
  "before_first_solve fw =
     bnd (flowsheet fw) (\<lambda>m.
     bnd (py_assert (degrees_of_freedom m = 20)) (\<lambda>u.
     bnd (square_problem m) (\<lambda>m.
     bnd (py_assert (degrees_of_freedom m = 0)) (\<lambda>u.
     init_all fw cell_34 m))))"

definition solve_and_check :: "framework \<Rightarrow> model \<Rightarrow> error + model" where
  "solve_and_check fw m =
     bnd (solver_solve fw m) (\<lambda>r.
     bnd (py_assert (fst r = optimal)) (\<lambda>u. Inr (snd r)))"

definition cell_39 :: "model \<Rightarrow> error + unit" where
  "cell_39 m = assert_value m operating_cost (\<lambda>x. x / 10 ^ 6) 39.958"

definition cell_42 :: "model \<Rightarrow> error + unit" where
  "cell_42 m =
     bnd (assert_value m (Var (Unit_attr fs_R101 conversion, Unindexed)) (\<lambda>x. x) 0.800) (\<lambda>u.
     bnd (assert_value m (Var (Unit_attr fs_R101 heat_duty, Time 0)) (\<lambda>x. x / 10 ^ 6) 17.819) (\<lambda>u.
     assert_value m (Var (Port_member fs_R101 outlet temperature, Time 0)) (\<lambda>x. x / 10 ^ 2) 9.208))"

definition square_results :: "framework \<Rightarrow> model \<Rightarrow> error + model" where
  "square_results fw m =
     bnd (cell_39 m) (\<lambda>u.
     bnd (report fw fs_R101 m) (\<lambda>u.
     bnd (cell_42 m) (\<lambda>u. Inr m)))"

definition before_second_solve :: "model \<Rightarrow> error + model" where
  "before_second_solve m =
     bnd (optimization_problem m) (\<lambda>m.
     bnd (py_assert (degrees_of_freedom m = 2)) (\<lambda>u. Inr m))"

definition cell_53 :: "model \<Rightarrow> error + unit" where
  "cell_53 m = assert_value m operating_cost (\<lambda>x. x / 10 ^ 6) 107.218"

definition cell_56 :: "framework \<Rightarrow> model \<Rightarrow> error + unit" where
  "cell_56 fw m =
     bnd (assert_value m (Var (Port_member fs_C101 outlet pressure, Time 0)) (\<lambda>x. x / 10 ^ 6) 1.000) (\<lambda>u.
     bnd (assert_value m (Var (Port_member fs_C101 outlet temperature, Time 0)) (\<lambda>x. x / 100) 6.19248) (\<lambda>u.
     bnd (assert_value m (Var (Port_member fs_H101 outlet temperature, Time 0)) (\<lambda>x. x / 100) 6.19248) (\<lambda>u.
     bnd (assert_value m (Var (Port_member fs_R101 outlet temperature, Time 0)) (\<lambda>x. x / 100) 10.8738) (\<lambda>u.
     bnd (assert_value m (hyd_prod fw) (\<lambda>x. x) 32.070) (\<lambda>u.
     assert_value m (Var (Unit_attr fs_R101 conversion, Unindexed)) (\<lambda>x. x * 100) 90.0)))))"

definition optimal_results :: "framework \<Rightarrow> model \<Rightarrow> error + model" where
  "optimal_results fw m =
     bnd (report fw fs_C101 m) (\<lambda>u.
     bnd (report fw fs_H101 m) (\<lambda>u.
     bnd (report fw fs_R101 m) (\<lambda>u.
     bnd (cell_53 m) (\<lambda>u.
     bnd (cell_56 fw m) (\<lambda>u. Inr m)))))"


definition second_solve_bounds ::
  "framework \<Rightarrow> var_id \<Rightarrow> error + real option \<times> real option" where
  "second_solve_bounds fw v =
     bnd (before_first_solve fw) (\<lambda>m.
     bnd (solve_and_check fw m) (\<lambda>m.
     bnd (square_results fw m) (\<lambda>m.
     bnd (before_second_solve m) (\<lambda>m. bounds_of m v))))"

text \<open>
  \<open>second_solve_bounds fw v\<close> reads the bounds of the variable \<open>v\<close> in the model that the
  notebook passes to its second solve.
\<close>

section \<open>What the notebook asks of the unit models\<close>

text \<open>
  The notebook names twelve ports and four variables of the units, and it declares thirteen
  components of its own. \<open>units_ok\<close> collects what it relies on in the model that the
  framework has built before the first arc is declared: each of the twelve ports has its
  eight stream variables, at time 0 only; the four unit variables exist, at time 0 only; the
  reactor has no attribute \<^verbatim>\<open>conversion\<close> yet; the nineteen variables of
  \<open>specifications\<close> (the feed conditions and the unit specifications that cells 25 and 27
  fix) are not fixed; the compressor's efficiency appears in an active equality constraint;
  a constraint names declared variables only; the names the notebook assigns are free; and
  there is neither an arc nor an objective.
\<close>

definition flowsheet_ports :: "(unit_model \<times> port) list" where
  "flowsheet_ports =
     [(fs_CH4, outlet), (fs_H2O, outlet), (fs_M101, methane_feed), (fs_M101, steam_feed),
      (fs_M101, outlet), (fs_C101, inlet), (fs_C101, outlet), (fs_H101, inlet),
      (fs_H101, outlet), (fs_R101, inlet), (fs_R101, outlet), (fs_PROD, inlet)]"

definition unit_variables :: "component list" where
  "unit_variables =
     [Unit_attr fs_C101 efficiency_isentropic, Unit_attr fs_C101 work_isentropic,
      Unit_attr fs_H101 heat_duty, Unit_attr fs_R101 heat_duty]"

definition specifications :: "var_id list" where
  "specifications =
     port_vars (fs_CH4, outlet) @ port_vars (fs_H2O, outlet) @
     [(Port_member fs_C101 outlet pressure, Time 0),
      (Unit_attr fs_C101 efficiency_isentropic, Time 0),
      (Port_member fs_H101 outlet temperature, Time 0)]"

definition notebook_names :: "string list" where
  "notebook_names =
     [''fs.s01'', ''fs.s02'', ''fs.s03'', ''fs.s04'', ''fs.s05'', ''fs.s06'',
      ''fs.hyd_prod'', ''fs.cooling_cost'', ''fs.heating_cost'', ''fs.compression_cost'',
      ''fs.operating_cost'', ''fs.R101.conv_constraint'', ''fs.objective'']"

definition units_ok :: "model \<Rightarrow> bool" where
  "units_ok m \<longleftrightarrow>
     (\<forall>p \<in> set flowsheet_ports. \<forall>sv i.
        declared m (Port_member (fst p) (snd p) sv, i) = (i \<in> set (member_indices sv))) \<and>
     (\<forall>X \<in> set unit_variables. \<forall>i. declared m (X, i) = (i = Time 0)) \<and>
     vars m (Unit_attr fs_R101 conversion) = None \<and>
     (\<forall>v \<in> set specifications. \<not> is_fixed m v) \<and>
     (Unit_attr fs_C101 efficiency_isentropic, Time 0)
        \<in> set (variables_in_activated_equalities m) \<and>
     (\<forall>v \<in> set (variables_in_activated_equalities m). declared m v) \<and>
     (\<forall>n \<in> set notebook_names. n \<notin> set (component_names m)) \<and>
     arcs m = [] \<and> objectives m = []"

subsection \<open>The stream graph and the calls that set bounds\<close>

text \<open>
  \<open>downstream as u\<close> lists the units that an arc of \<open>as\<close> leaves \<open>u\<close> for. \<open>route as k u\<close>
  follows the arcs from \<open>u\<close> for at most \<open>k\<close> units: it is the list of the units passed when
  every unit on the way has exactly one arc leaving it and the last one has none, and
  \<open>None\<close> when a unit has two or when \<open>k\<close> units do not reach the end.
  \<open>bound_calls v\<close> holds of the statements that set a bound of \<open>v\<close>.
\<close>

definition downstream :: "(string \<times> arc) list \<Rightarrow> unit_model \<Rightarrow> unit_model list" where
  "downstream as u =
     map (\<lambda>a. fst (destination (snd a))) (filter (\<lambda>a. fst (source (snd a)) = u) as)"

fun route :: "(string \<times> arc) list \<Rightarrow> nat \<Rightarrow> unit_model \<Rightarrow> unit_model list option" where
  "route as 0 u = None"
| "route as (Suc k) u =
     (case downstream as u of
        [] \<Rightarrow> Some [u]
      | [v] \<Rightarrow> map_option (Cons u) (route as k v)
      | v # w # vs \<Rightarrow> None)"

fun bound_calls :: "var_id \<Rightarrow> stmt \<Rightarrow> bool" where
  "bound_calls v (Setlb w c) = (w = v)"
| "bound_calls v (Setub w c) = (w = v)"
| "bound_calls v s = False"

fun is_expression :: "stmt \<Rightarrow> bool" where
  "is_expression (New_Expression n e) = True"
| "is_expression s = False"

section \<open>A sample framework\<close>

text \<open>
  A small instance of \<open>framework\<close>, to run the notebook on. Its unit models have the ports
  and variables of \<open>units_ok\<close> and nothing else; their state variables carry bounds, as
  the state variables of a property package do (here flow 0 to 50000 mol/s, temperature
  273.15 to 2500 K, pressure 5e4 to 1e8 Pa); their equations stand in for the balances of
  the mixer, the compressor, the heater and the reactor: one equation for each state
  variable of a unit's outlet, so that the compressor keeps two degrees of freedom, the
  heater and the reactor one each. Its initialisers give every variable the value 1. Its
  solver computes nothing: it returns fixed values that lie within the tolerances of the
  notebook's assertions, those for the square problem when the model has no objective and
  those for the optimization when it has one.
\<close>

definition free_var :: "real option \<Rightarrow> real option \<Rightarrow> var_data" where
  "free_var l u = \<lparr>val = None, fixed = False, lb = l, ub = u\<rparr>"

fun state_bounds :: "state_var \<Rightarrow> var_data" where
  "state_bounds flow_mol = free_var (Some 0) (Some 50000)"
| "state_bounds temperature = free_var (Some 273.15) (Some 2500)"
| "state_bounds pressure = free_var (Some (5 * 10 ^ 4)) (Some (10 ^ 8))"
| "state_bounds mole_frac_comp = free_var (Some 0) None"

fun sample_vars :: "component \<Rightarrow> (index \<Rightarrow> var_data option) option" where
  "sample_vars (Port_member u p sv) =
     (if (u, p) \<in> set flowsheet_ports
      then Some (\<lambda>i. if i \<in> set (member_indices sv) then Some (state_bounds sv) else None)
      else None)"
| "sample_vars (Unit_attr u a) =
     (if (u, a) \<in> set [(fs_C101, efficiency_isentropic), (fs_C101, work_isentropic),
                        (fs_H101, heat_duty), (fs_R101, heat_duty)]
      then Some (\<lambda>i. if i = Time 0 then Some (free_var None None) else None)
      else None)"

definition unit_equations :: "string \<Rightarrow> unit_model \<times> port \<Rightarrow> expr list \<Rightarrow> (string \<times> constraint) list" where
  "unit_equations n p rhs =
     map (\<lambda>(v, e). (n, \<lparr>body_lhs = Var v, body_rhs = e, equality = True, active = True\<rparr>))
       (zip (port_vars p) rhs)"

definition through :: "unit_model \<times> port \<Rightarrow> state_var \<Rightarrow> expr \<Rightarrow> expr list" where
  "through p sv e =
     map (\<lambda>v. if fst v = Port_member (fst p) (snd p) sv then Add (Var v) e else Var v) (port_vars p)"

definition sample_equations :: "(string \<times> constraint) list" where
  "sample_equations =
     unit_equations ''fs.M101.mixing'' (fs_M101, outlet)
       (map (\<lambda>(a, b). Add (Var a) (Var b))
          (zip (port_vars (fs_M101, methane_feed)) (port_vars (fs_M101, steam_feed))))
     @ unit_equations ''fs.C101.balance'' (fs_C101, outlet)
         (through (fs_C101, inlet) pressure
            (Mul (Var (Unit_attr fs_C101 efficiency_isentropic, Time 0))
                 (Var (Unit_attr fs_C101 work_isentropic, Time 0))))
     @ unit_equations ''fs.H101.balance'' (fs_H101, outlet)
         (through (fs_H101, inlet) temperature (Var (Unit_attr fs_H101 heat_duty, Time 0)))
     @ unit_equations ''fs.R101.balance'' (fs_R101, outlet)
         (through (fs_R101, inlet) temperature (Var (Unit_attr fs_R101 heat_duty, Time 0)))"

definition sample_units :: model where
  "sample_units = \<lparr>vars = sample_vars, constraints = sample_equations, expressions = [],
                objectives = [], arcs = []\<rparr>"

fun square_solution :: "var_id \<Rightarrow> real option" where
  "square_solution (Unit_attr u heat_duty, i) =
     (if u = fs_R101 then Some 17819000 else Some 1862126)"
| "square_solution (Unit_attr u work_isentropic, i) = Some 500000"
| "square_solution (Port_member u p temperature, i) = Some 920.8"
| "square_solution v = Some 1"

fun optimal_solution :: "var_id \<Rightarrow> real option" where
  "optimal_solution (Unit_attr u heat_duty, i) =
     (if u = fs_R101 then Some 30000000 else Some 0)"
| "optimal_solution (Unit_attr u work_isentropic, i) = Some 2572372"
| "optimal_solution (Port_member u p temperature, i) =
     (if u = fs_R101 \<and> p = outlet then Some 1087.38 else Some 619.248)"
| "optimal_solution (Port_member u p pressure, i) = Some (10 ^ 6)"
| "optimal_solution (Port_member u p flow_mol, i) = Some 457.3"
| "optimal_solution (Port_member u p mole_frac_comp, i) = Some 0.5"
| "optimal_solution v = Some 1"

definition sample :: framework where
  "sample = \<lparr>unit_models = Inr sample_units, H2_mw = 2.016 / 10 ^ 3,
          Mlb_yr_per_kg_s = 31557600 / 453592.37,
          initialize = (\<lambda>u m. Inr (\<lambda>v. Some 1)),
          solve = (\<lambda>m. Inr (optimal,
                    if objectives m = [] then square_solution else optimal_solution)),
          report = (\<lambda>u m. Inr ())\<rparr>"





definition sample_point :: "var_id \<Rightarrow> real" where
  "sample_point v =
     (if v = (Unit_attr fs_R101 conversion, Unindexed) then 0.8
      else if v = (Port_member fs_R101 inlet flow_mol, Time 0) then 300
      else if v = (Port_member fs_R101 inlet mole_frac_comp, Time_comp 0 CH4) then 0.25
      else if v = (Port_member fs_R101 outlet flow_mol, Time 0) then 400
      else if v = (Port_member fs_R101 outlet mole_frac_comp, Time_comp 0 CH4) then 0.0375
      else 0)"

section \<open>The effect of a cell on the model\<close>

text \<open>
  \<open>changed_by g m m'\<close>: the model \<open>m'\<close> is \<open>m\<close> with the data of every declared variable
  \<open>w\<close> replaced by \<open>g w\<close> of it, and nothing else changed. The statements that fix, unfix
  and bound variables act this way, one \<open>step\<close> each; so do the initialisers and the
  solver, with a \<open>g\<close> that changes values of variables that are not fixed
  (\<open>value_change\<close>, \<open>revalued\<close>).
\<close>

definition changed_by :: "(var_id \<Rightarrow> var_data \<Rightarrow> var_data) \<Rightarrow> model \<Rightarrow> model \<Rightarrow> bool" where
  "changed_by g m m' =
     (constraints m' = constraints m \<and> expressions m' = expressions m \<and>
      objectives m' = objectives m \<and> arcs m' = arcs m \<and>
      (\<forall>w. lookup_var m' w = (case lookup_var m w of Inl e \<Rightarrow> Inl e | Inr d \<Rightarrow> Inr (g w d))))"

fun var_only :: "stmt \<Rightarrow> bool" where
  "var_only (Fix_at v c) = True"
| "var_only (Fix X c) = True"
| "var_only (Unfix X) = True"
| "var_only (Setlb v c) = True"
| "var_only (Setub v c) = True"
| "var_only s = False"

fun in_scope :: "stmt \<Rightarrow> var_id \<Rightarrow> bool" where
  "in_scope (Fix_at v c) w = (w = v)"
| "in_scope (Fix X c) w = (fst w = X)"
| "in_scope (Unfix X) w = (fst w = X)"
| "in_scope (Setlb v c) w = (w = v)"
| "in_scope (Setub v c) w = (w = v)"
| "in_scope s w = False"

fun effect :: "stmt \<Rightarrow> var_data \<Rightarrow> var_data" where
  "effect (Fix_at v c) d = d\<lparr>val := Some c, fixed := True\<rparr>"
| "effect (Fix X c) d = d\<lparr>val := Some c, fixed := True\<rparr>"
| "effect (Unfix X) d = d\<lparr>fixed := False\<rparr>"
| "effect (Setlb v c) d = d\<lparr>lb := Some c\<rparr>"
| "effect (Setub v c) d = d\<lparr>ub := Some c\<rparr>"
| "effect s d = d"

fun target_ok :: "model \<Rightarrow> stmt \<Rightarrow> bool" where
  "target_ok m (Fix_at v c) = declared m v"
| "target_ok m (Fix X c) = (vars m X \<noteq> None)"
| "target_ok m (Unfix X) = (vars m X \<noteq> None)"
| "target_ok m (Setlb v c) = declared m v"
| "target_ok m (Setub v c) = declared m v"
| "target_ok m s = False"

definition step :: "stmt \<Rightarrow> var_id \<Rightarrow> var_data \<Rightarrow> var_data" where
  "step s w d = (if in_scope s w then effect s d else d)"

fun is_fix :: "stmt \<Rightarrow> bool" where
  "is_fix (Fix_at v c) = True"
| "is_fix (Fix X c) = True"
| "is_fix s = False"

fun targets :: "stmt \<Rightarrow> var_id list" where
  "targets (Fix_at v c) = [v]"
| "targets (Fix X c) = [(X, Time 0)]"
| "targets s = []"

definition time_indexed :: "model \<Rightarrow> component \<Rightarrow> bool" where
  "time_indexed m X = (\<forall>i. declared m (X, i) \<longrightarrow> i = Time 0)"

fun fix_ok :: "model \<Rightarrow> stmt \<Rightarrow> bool" where
  "fix_ok m (Fix_at v c) = True"
| "fix_ok m (Fix X c) = time_indexed m X"
| "fix_ok m s = False"

definition value_change :: "(var_id \<Rightarrow> var_data \<Rightarrow> var_data) \<Rightarrow> bool" where
  "value_change g =
     (\<forall>w d. fixed (g w d) = fixed d \<and> lb (g w d) = lb d \<and> ub (g w d) = ub d \<and>
            (fixed d \<longrightarrow> g w d = d))"

definition revalued :: "model \<Rightarrow> model \<Rightarrow> bool" where
  "revalued m m' = (\<exists>g. value_change g \<and> changed_by g m m')"

text \<open>
  The variables that the active equality constraints mention, as a set; the arcs and
  expressions of cells 14 to 20 and the model \<open>built\<close> from the unit models by these cells;
  the model after the cells of the square problem (\<open>squared\<close>) and after those of the
  optimization problem (\<open>optimized\<close>).
\<close>

definition act_eq :: "string \<times> constraint \<Rightarrow> bool" where
  "act_eq c = (active (snd c) \<and> equality (snd c))"

definition mentioned :: "(string \<times> constraint) list \<Rightarrow> var_id set" where
  "mentioned cs =
     (\<Union>c \<in> set (filter act_eq cs).
        set (identify_variables (body_lhs (snd c))) \<union> set (identify_variables (body_rhs (snd c))))"

definition six_arcs :: "(string \<times> arc) list" where
  "six_arcs =
     [(''fs.s01'', \<lparr>source = (fs_CH4, outlet), destination = (fs_M101, methane_feed), expanded = False\<rparr>),
      (''fs.s02'', \<lparr>source = (fs_H2O, outlet), destination = (fs_M101, steam_feed), expanded = False\<rparr>),
      (''fs.s03'', \<lparr>source = (fs_M101, outlet), destination = (fs_C101, inlet), expanded = False\<rparr>),
      (''fs.s04'', \<lparr>source = (fs_C101, outlet), destination = (fs_H101, inlet), expanded = False\<rparr>),
      (''fs.s05'', \<lparr>source = (fs_H101, outlet), destination = (fs_R101, inlet), expanded = False\<rparr>),
      (''fs.s06'', \<lparr>source = (fs_R101, outlet), destination = (fs_PROD, inlet), expanded = False\<rparr>)]"

definition five_expressions :: "framework \<Rightarrow> (string \<times> expr) list" where
  "five_expressions fw =
     [(''fs.hyd_prod'', hyd_prod fw), (''fs.cooling_cost'', cooling_cost),
      (''fs.heating_cost'', heating_cost), (''fs.compression_cost'', compression_cost),
      (''fs.operating_cost'', operating_cost)]"

definition built :: "framework \<Rightarrow> model \<Rightarrow> model" where
  "built fw m =
     (expand_arcs (m\<lparr>arcs := arcs m @ six_arcs\<rparr>))
       \<lparr>expressions := expressions m @ five_expressions fw\<rparr>"

definition conv_var :: var_id where
  "conv_var = (Unit_attr fs_R101 conversion, Unindexed)"

definition conv_constraint :: "string \<times> constraint" where
  "conv_constraint =
     (''fs.R101.conv_constraint'',
      \<lparr>body_lhs = conv_lhs, body_rhs = conv_rhs, equality = True, active = True\<rparr>)"

definition conv_data :: "real \<Rightarrow> var_data" where
  "conv_data c = \<lparr>val = Some c, fixed = True, lb = Some 0, ub = Some 1\<rparr>"

definition squared :: "framework \<Rightarrow> model \<Rightarrow> model \<Rightarrow> bool" where
  "squared fw m0 m2 \<longleftrightarrow>
     constraints m2 = constraints (built fw m0) @ [conv_constraint] \<and>
     expressions m2 = expressions (built fw m0) \<and> objectives m2 = [] \<and>
     arcs m2 = arcs (built fw m0) \<and>
     (\<forall>w. lookup_var m2 w =
        (if fst w = Unit_attr fs_R101 conversion
         then (if snd w = Unindexed then Inr (conv_data 0.80) else Inl KeyError)
         else (case lookup_var m0 w of
                 Inl e \<Rightarrow> Inl e
               | Inr d \<Rightarrow> Inr (fold (\<lambda>s. step s w) (cell_25 @ cell_27) d))))"

definition P_var :: var_id where
  "P_var = (Port_member fs_C101 outlet pressure, Time 0)"

definition T_var :: var_id where
  "T_var = (Port_member fs_H101 outlet temperature, Time 0)"

definition objective :: "string \<times> expr \<times> sense" where
  "objective = (''fs.objective'', operating_cost, minimize)"

definition optimized :: "model \<Rightarrow> model \<Rightarrow> bool" where
  "optimized m m4 \<longleftrightarrow>
     constraints m4 = constraints m \<and> expressions m4 = expressions m \<and>
     arcs m4 = arcs m \<and> objectives m4 = [objective] \<and>
     (\<forall>w. lookup_var m4 w =
        (case lookup_var m w of
           Inl e \<Rightarrow> Inl e
         | Inr d \<Rightarrow> Inr (fold (\<lambda>s. step s w) cell_47 d)))"

section \<open>Statements and the variables they touch\<close>

lemma bnd_Inr [simp]: "bnd (Inr x) f = f x"
  by (simp add: bnd_def)

lemma bnd_Inl [simp]: "bnd (Inl e) f = Inl e"
  by (simp add: bnd_def)

lemma bnd_eq_Inr: "bnd r f = Inr y \<longleftrightarrow> (\<exists>x. r = Inr x \<and> f x = Inr y)"
  by (cases r) simp_all

lemma changed_by_refl: "changed_by (\<lambda>w d. d) m m"
  by (auto simp: changed_by_def split: sum.splits)

lemma changed_by_trans:
  "changed_by g m m' \<Longrightarrow> changed_by h m' m'' \<Longrightarrow> changed_by (\<lambda>w d. h w (g w d)) m m''"
  by (auto simp: changed_by_def split: sum.splits)

lemma changed_by_lookup:
  "changed_by g m m' \<Longrightarrow>
     lookup_var m' w = (case lookup_var m w of Inl e \<Rightarrow> Inl e | Inr d \<Rightarrow> Inr (g w d))"
  unfolding changed_by_def by blast

lemma upd_at_changed:
  "upd_at v f m = Inr m' \<Longrightarrow> changed_by (\<lambda>w d. if w = v then f d else d) m m'"
  by (cases v) (auto simp: upd_at_def changed_by_def lookup_var_def split: option.splits if_splits)

lemma upd_all_changed:
  "upd_all X f m = Inr m' \<Longrightarrow> changed_by (\<lambda>w d. if fst w = X then f d else d) m m'"
  by (auto simp: upd_all_def changed_by_def lookup_var_def split: option.splits if_splits)

lemma upd_at_ok: "declared m v \<Longrightarrow> \<exists>m'. upd_at v f m = Inr m'"
  by (auto simp: upd_at_def declared_def lookup_var_def split: option.splits)

lemma upd_all_ok: "vars m X \<noteq> None \<Longrightarrow> \<exists>m'. upd_all X f m = Inr m'"
  by (auto simp: upd_all_def split: option.splits)

lemma changed_by_declared: "changed_by g m m' \<Longrightarrow> declared m' w = declared m w"
  using changed_by_lookup[of g m m' w] by (simp add: declared_def split: sum.splits)

lemma changed_by_component: "changed_by g m m' \<Longrightarrow> (vars m' X = None) = (vars m X = None)"
proof -
  assume c: "changed_by g m m'"
  then have l: "lookup_var m' (X, Unindexed) =
      (case lookup_var m (X, Unindexed) of Inl e \<Rightarrow> Inl e | Inr d \<Rightarrow> Inr (g (X, Unindexed) d))"
    by (simp add: changed_by_def)
  show ?thesis
    using l by (auto simp: lookup_var_def split: option.splits sum.splits)
qed

lemma exec_var_only:
  "var_only s \<Longrightarrow> exec s m = Inr m' \<Longrightarrow> changed_by (step s) m m'"
  unfolding step_def
  by (cases s) (auto dest: upd_at_changed upd_all_changed cong: if_cong)

lemma exec_var_only_ok: "target_ok m s \<Longrightarrow> \<exists>m'. exec s m = Inr m'"
  by (cases s) (auto intro: upd_at_ok upd_all_ok)

lemma target_ok_changed: "changed_by g m m' \<Longrightarrow> target_ok m' s = target_ok m s"
  by (cases s) (auto simp: changed_by_declared changed_by_component)

lemma exec_all_var_only:
  "list_all var_only ss \<Longrightarrow> exec_all ss m = Inr m' \<Longrightarrow>
     changed_by (\<lambda>w. fold (\<lambda>s. step s w) ss) m m'"
proof (induction ss arbitrary: m)
  case Nil
  then show ?case using changed_by_refl by simp
next
  case (Cons s ss)
  from Cons.prems obtain m1 where m1: "exec s m = Inr m1" and rest: "exec_all ss m1 = Inr m'"
    by (auto simp: bnd_eq_Inr)
  from Cons.prems m1 have c1: "changed_by (step s) m m1"
    by (simp add: exec_var_only)
  from Cons.IH[OF _ rest] Cons.prems
  have c2: "changed_by (\<lambda>w. fold (\<lambda>s. step s w) ss) m1 m'" by simp
  from changed_by_trans[OF c1 c2] show ?case by simp
qed

lemma exec_all_var_only_ok:
  "list_all var_only ss \<Longrightarrow> list_all (target_ok m) ss \<Longrightarrow> \<exists>m'. exec_all ss m = Inr m'"
proof (induction ss arbitrary: m)
  case Nil
  then show ?case by simp
next
  case (Cons s ss)
  then obtain m1 where m1: "exec s m = Inr m1"
    using exec_var_only_ok[of m s] by auto
  with Cons.prems have "changed_by (step s) m m1"
    by (simp add: exec_var_only)
  then have "list_all (target_ok m1) ss"
    using Cons.prems by (simp add: target_ok_changed list_all_iff)
  with Cons.IH[of m1] Cons.prems obtain m' where "exec_all ss m1 = Inr m'" by auto
  with m1 show ?case by simp
qed

section \<open>Degrees of freedom as cardinalities\<close>

lemma activated_equalities_filter: "activated_equalities m = filter act_eq (constraints m)"
  by (simp add: activated_equalities_def act_eq_def[abs_def])

lemma set_variables_in_activated_equalities:
  "set (variables_in_activated_equalities m) = mentioned (constraints m)"
  by (auto simp: variables_in_activated_equalities_def mentioned_def activated_equalities_filter)

lemma mentioned_append: "mentioned (cs @ ds) = mentioned cs \<union> mentioned ds"
  by (auto simp: mentioned_def)

lemma mentioned_single:
  "active k \<Longrightarrow> equality k \<Longrightarrow>
     mentioned [(n, k)] =
       set (identify_variables (body_lhs k)) \<union> set (identify_variables (body_rhs k))"
  by (simp add: mentioned_def act_eq_def)

lemma finite_mentioned: "finite (mentioned cs)"
  by (simp add: mentioned_def)

lemma degrees_of_freedom_card:
  "degrees_of_freedom m =
     int (card (mentioned (constraints m)))
     - int (card {v \<in> mentioned (constraints m). is_fixed m v})
     - int (length (filter act_eq (constraints m)))"
proof -
  let ?xs = "variables_in_activated_equalities m"
  let ?U = "mentioned (constraints m)"
  have d: "distinct ?xs" by (simp add: variables_in_activated_equalities_def)
  have "length (filter (\<lambda>v. \<not> is_fixed m v) ?xs) = card ({v. \<not> is_fixed m v} \<inter> set ?xs)"
    using d by (rule distinct_length_filter)
  also have "{v. \<not> is_fixed m v} \<inter> set ?xs = ?U - {v \<in> ?U. is_fixed m v}"
    by (auto simp: set_variables_in_activated_equalities)
  also have "card (?U - {v \<in> ?U. is_fixed m v}) = card ?U - card {v \<in> ?U. is_fixed m v}"
    by (rule card_Diff_subset) (auto simp: finite_mentioned)
  finally have a: "length (filter (\<lambda>v. \<not> is_fixed m v) ?xs) =
      card ?U - card {v \<in> ?U. is_fixed m v}" .
  have "card {v \<in> ?U. is_fixed m v} \<le> card ?U"
    by (rule card_mono) (auto simp: finite_mentioned)
  then show ?thesis
    by (simp add: degrees_of_freedom_def a activated_equalities_filter of_nat_diff)
qed

lemma dof_cong:
  assumes "constraints m' = constraints m"
      and "\<And>v. v \<in> mentioned (constraints m) \<Longrightarrow> is_fixed m' v = is_fixed m v"
  shows "degrees_of_freedom m' = degrees_of_freedom m"
proof -
  have "{v \<in> mentioned (constraints m). is_fixed m' v} = {v \<in> mentioned (constraints m). is_fixed m v}"
    using assms(2) by auto
  then show ?thesis by (simp add: degrees_of_freedom_card assms(1))
qed

lemma dof_unfix:
  assumes c: "constraints m' = constraints m"
      and f: "\<And>v. v \<in> mentioned (constraints m) \<Longrightarrow> is_fixed m' v = (is_fixed m v \<and> v \<notin> F)"
      and s: "F \<subseteq> mentioned (constraints m)"
      and u: "\<And>v. v \<in> F \<Longrightarrow> is_fixed m v"
  shows "degrees_of_freedom m' = degrees_of_freedom m + int (card F)"
proof -
  let ?U = "mentioned (constraints m)"
  have fin: "finite F" using s finite_mentioned by (rule finite_subset)
  have e: "{v \<in> ?U. is_fixed m v} = {v \<in> ?U. is_fixed m' v} \<union> F"
    using f s u by auto
  have dj: "{v \<in> ?U. is_fixed m' v} \<inter> F = {}" using f by auto
  have "card ({v \<in> ?U. is_fixed m' v} \<union> F) = card {v \<in> ?U. is_fixed m' v} + card F"
    using fin dj by (simp add: card_Un_disjoint finite_mentioned)
  then show ?thesis by (simp add: degrees_of_freedom_card c e)
qed

lemma dof_shift:
  assumes u: "mentioned (constraints m') = mentioned (constraints m) \<union> N"
      and n: "N \<inter> mentioned (constraints m) = {}" "finite N"
      and f: "{v \<in> mentioned (constraints m'). is_fixed m' v} =
                {v \<in> mentioned (constraints m). is_fixed m v} \<union> F"
      and d: "F \<inter> {v \<in> mentioned (constraints m). is_fixed m v} = {}" "finite F"
      and k: "length (filter act_eq (constraints m')) = length (filter act_eq (constraints m)) + k"
  shows "degrees_of_freedom m' = degrees_of_freedom m + int (card N) - int (card F) - int k"
proof -
  let ?U = "mentioned (constraints m)"
  have c1: "card (?U \<union> N) = card ?U + card N"
    using n by (subst card_Un_disjoint) (auto simp: finite_mentioned)
  have c2: "card ({v \<in> ?U. is_fixed m v} \<union> F) = card {v \<in> ?U. is_fixed m v} + card F"
    using d by (subst card_Un_disjoint) (auto simp: finite_mentioned)
  show ?thesis
    unfolding degrees_of_freedom_card[of m'] f k c2 unfolding u c1
    by (simp add: degrees_of_freedom_card)
qed

section \<open>The flowsheet cells\<close>

lemma port_vars_list:
  "port_vars (u, p) =
     [(Port_member u p flow_mol, Time 0),
      (Port_member u p mole_frac_comp, Time_comp 0 CH4),
      (Port_member u p mole_frac_comp, Time_comp 0 H2O),
      (Port_member u p mole_frac_comp, Time_comp 0 H2),
      (Port_member u p mole_frac_comp, Time_comp 0 CO),
      (Port_member u p mole_frac_comp, Time_comp 0 CO2),
      (Port_member u p temperature, Time 0),
      (Port_member u p pressure, Time 0)]"
  by (simp add: port_vars_def components_def)

lemma lookup_var_vars: "vars m' = vars m \<Longrightarrow> lookup_var m' v = lookup_var m v"
  by (simp add: lookup_var_def)

lemma declared_vars: "vars m' = vars m \<Longrightarrow> declared m' v = declared m v"
  by (simp add: declared_def lookup_var_def)

lemma is_fixed_vars: "vars m' = vars m \<Longrightarrow> is_fixed m' v = is_fixed m v"
  by (simp add: is_fixed_def lookup_var_def)

lemma check_declared_ok: "list_all (declared m) vs \<Longrightarrow> check_declared m vs = Inr ()"
  by (induction vs) (auto simp: declared_def split: sum.splits)

lemma declared_component: "declared m (X, i) \<Longrightarrow> vars m X \<noteq> None"
  by (auto simp: declared_def lookup_var_def split: option.splits)

lemma exec_all_append: "exec_all (ss @ ts) m = bnd (exec_all ss m) (exec_all ts)"
proof (induction ss arbitrary: m)
  case Nil
  then show ?case by simp
next
  case (Cons s ss)
  then show ?case by (cases "exec s m") simp_all
qed

lemma units_ok_port:
  "units_ok m \<Longrightarrow> p \<in> set flowsheet_ports \<Longrightarrow>
     declared m (Port_member (fst p) (snd p) sv, i) = (i \<in> set (member_indices sv))"
  unfolding units_ok_def by blast

lemma units_ok_port_vars:
  assumes "units_ok m" "p \<in> set flowsheet_ports"
  shows "list_all (declared m) (port_vars p)"
  using units_ok_port[OF assms]
  by (cases p) (simp add: port_vars_list components_def)

lemma units_ok_has_port:
  assumes "units_ok m" "p \<in> set flowsheet_ports"
  shows "has_port m p"
proof -
  have "\<And>sv. vars m (Port_member (fst p) (snd p) sv) \<noteq> None"
  proof -
    fix sv
    obtain i where "i \<in> set (member_indices sv)"
      by (cases sv) (auto simp: components_def)
    then have "declared m (Port_member (fst p) (snd p) sv, i)"
      using units_ok_port[OF assms] by simp
    then show "vars m (Port_member (fst p) (snd p) sv) \<noteq> None"
      by (rule declared_component)
  qed
  then show ?thesis by (simp add: has_port_def)
qed

lemma units_ok_unit_variable:
  "units_ok m \<Longrightarrow> X \<in> set unit_variables \<Longrightarrow> declared m (X, i) = (i = Time 0)"
  unfolding units_ok_def by blast

lemma component_names_updates [simp]:
  "set (component_names (m\<lparr>constraints := constraints m @ cs\<rparr>)) =
     set (component_names m) \<union> fst ` set cs"
  "set (component_names (m\<lparr>expressions := expressions m @ es\<rparr>)) =
     set (component_names m) \<union> fst ` set es"
  "set (component_names (m\<lparr>objectives := objectives m @ os\<rparr>)) =
     set (component_names m) \<union> fst ` set os"
  "set (component_names (m\<lparr>arcs := arcs m @ as\<rparr>)) =
     set (component_names m) \<union> fst ` set as"
  "component_names (m\<lparr>vars := vs\<rparr>) = component_names m"
  by (auto simp: component_names_def)

lemma has_port_updates [simp]:
  "has_port (m\<lparr>constraints := cs\<rparr>) = has_port m"
  "has_port (m\<lparr>expressions := es\<rparr>) = has_port m"
  "has_port (m\<lparr>objectives := os\<rparr>) = has_port m"
  "has_port (m\<lparr>arcs := as\<rparr>) = has_port m"
  by (simp_all add: fun_eq_iff has_port_def)

lemma del_component_fresh: "n \<notin> set (component_names m) \<Longrightarrow> del_component n m = m"
proof -
  assume "n \<notin> set (component_names m)"
  then have "filter (\<lambda>c. fst c \<noteq> n) (constraints m) = constraints m"
    "filter (\<lambda>c. fst c \<noteq> n) (expressions m) = expressions m"
    "filter (\<lambda>c. fst c \<noteq> n) (objectives m) = objectives m"
    "filter (\<lambda>c. fst c \<noteq> n) (arcs m) = arcs m"
    by (auto simp: component_names_def filter_id_conv)
  then show ?thesis by (simp add: del_component_def)
qed

lemma exec_New_Arc:
  "has_port m s \<Longrightarrow> has_port m d \<Longrightarrow> n \<notin> set (component_names m) \<Longrightarrow>
     exec (New_Arc n s d) m =
       Inr (m\<lparr>arcs := arcs m @ [(n, \<lparr>source = s, destination = d, expanded = False\<rparr>)]\<rparr>)"
  by (simp add: del_component_fresh)

lemma units_ok_names:
  "units_ok m \<Longrightarrow> n \<in> set notebook_names \<Longrightarrow> n \<notin> set (component_names m)"
  unfolding units_ok_def by blast

lemma cell_14_effect:
  assumes "\<And>p. p \<in> set flowsheet_ports \<Longrightarrow> has_port m p"
      and "\<And>n. n \<in> set notebook_names \<Longrightarrow> n \<notin> set (component_names m)"
  shows "exec_all cell_14 m = Inr (m\<lparr>arcs := arcs m @ six_arcs\<rparr>)"
proof -
  have p: "has_port m (fs_CH4, outlet)" "has_port m (fs_H2O, outlet)"
    "has_port m (fs_M101, methane_feed)" "has_port m (fs_M101, steam_feed)"
    "has_port m (fs_M101, outlet)" "has_port m (fs_C101, inlet)"
    "has_port m (fs_C101, outlet)" "has_port m (fs_H101, inlet)"
    "has_port m (fs_H101, outlet)" "has_port m (fs_R101, inlet)"
    "has_port m (fs_R101, outlet)" "has_port m (fs_PROD, inlet)"
    using assms(1) by (simp_all add: flowsheet_ports_def)
  have n: "''fs.s01'' \<notin> set (component_names m)" "''fs.s02'' \<notin> set (component_names m)"
    "''fs.s03'' \<notin> set (component_names m)" "''fs.s04'' \<notin> set (component_names m)"
    "''fs.s05'' \<notin> set (component_names m)" "''fs.s06'' \<notin> set (component_names m)"
    using assms(2) by (simp_all add: notebook_names_def)
  show ?thesis
    by (simp add: cell_14_def six_arcs_def p n exec_New_Arc del: exec.simps)
qed

lemma declared_updates [simp]:
  "declared (m\<lparr>constraints := cs\<rparr>) = declared m"
  "declared (m\<lparr>expressions := es\<rparr>) = declared m"
  "declared (m\<lparr>objectives := os\<rparr>) = declared m"
  "declared (m\<lparr>arcs := as\<rparr>) = declared m"
  by (simp_all add: fun_eq_iff declared_def lookup_var_def)

lemma exec_New_Expression:
  "list_all (declared m) (identify_variables e) \<Longrightarrow> n \<notin> set (component_names m) \<Longrightarrow>
     exec (New_Expression n e) m = Inr (m\<lparr>expressions := expressions m @ [(n, e)]\<rparr>)"
  by (simp add: check_declared_ok del_component_fresh)

lemma exec_New_Constraint:
  "list_all (declared m) (identify_variables a @ identify_variables b) \<Longrightarrow>
     n \<notin> set (component_names m) \<Longrightarrow>
     exec (New_Constraint n a b) m =
       Inr (m\<lparr>constraints := constraints m @
              [(n, \<lparr>body_lhs = a, body_rhs = b, equality = True, active = True\<rparr>)]\<rparr>)"
  by (simp add: check_declared_ok del_component_fresh)

lemma exec_New_Objective:
  "list_all (declared m) (identify_variables e) \<Longrightarrow> n \<notin> set (component_names m) \<Longrightarrow>
     exec (New_Objective n e) m = Inr (m\<lparr>objectives := objectives m @ [(n, e, minimize)]\<rparr>)"
  by (simp add: check_declared_ok del_component_fresh)

lemma cells_19_20_effect:
  assumes "declared m (Port_member fs_PROD inlet flow_mol, Time 0)"
    "declared m (Port_member fs_PROD inlet mole_frac_comp, Time_comp 0 H2)"
    "declared m (Unit_attr fs_R101 heat_duty, Time 0)"
    "declared m (Unit_attr fs_H101 heat_duty, Time 0)"
    "declared m (Unit_attr fs_C101 work_isentropic, Time 0)"
    "''fs.hyd_prod'' \<notin> set (component_names m)"
    "''fs.cooling_cost'' \<notin> set (component_names m)"
    "''fs.heating_cost'' \<notin> set (component_names m)"
    "''fs.compression_cost'' \<notin> set (component_names m)"
    "''fs.operating_cost'' \<notin> set (component_names m)"
  shows "exec_all (cell_19 fw @ cell_20) m =
           Inr (m\<lparr>expressions := expressions m @ five_expressions fw\<rparr>)"
proof -
  have v: "list_all (declared m) (identify_variables (hyd_prod fw))"
    "list_all (declared m) (identify_variables cooling_cost)"
    "list_all (declared m) (identify_variables heating_cost)"
    "list_all (declared m) (identify_variables compression_cost)"
    "list_all (declared m) (identify_variables operating_cost)"
    using assms
    by (simp_all add: hyd_prod_def cooling_cost_def heating_cost_def compression_cost_def
        operating_cost_def)
  show ?thesis
    using v assms(6-10)
    by (simp add: cell_19_def cell_20_def five_expressions_def exec_New_Expression
        del: exec.simps)
qed

lemma arc_equalities_names: "x \<in> set (arc_equalities a) \<Longrightarrow> fst x = fst a @ ''_expanded''"
  by (auto simp: arc_equalities_def)

lemma vars_expand_arcs: "vars (expand_arcs m) = vars m"
  by (simp add: expand_arcs_def)

lemma flowsheet_built:
  assumes u: "unit_models fw = Inr m" and ok: "units_ok m"
  shows "flowsheet fw = Inr (built fw m)"
proof -
  have a: "exec_all cell_14 m = Inr (m\<lparr>arcs := arcs m @ six_arcs\<rparr>)"
    using units_ok_has_port[OF ok] units_ok_names[OF ok] by (rule cell_14_effect)
  let ?e = "expand_arcs (m\<lparr>arcs := arcs m @ six_arcs\<rparr>)"
  have v: "vars ?e = vars m" by (simp add: vars_expand_arcs)
  have p: "declared m (Port_member fs_PROD inlet flow_mol, Time 0)"
    "declared m (Port_member fs_PROD inlet mole_frac_comp, Time_comp 0 H2)"
    using units_ok_port[OF ok, of "(fs_PROD, inlet)"]
    by (simp_all add: flowsheet_ports_def components_def)
  have q: "declared m (Unit_attr fs_R101 heat_duty, Time 0)"
    "declared m (Unit_attr fs_H101 heat_duty, Time 0)"
    "declared m (Unit_attr fs_C101 work_isentropic, Time 0)"
    using ok by (simp_all add: units_ok_unit_variable unit_variables_def)
  have nm: "set (component_names ?e) =
      set (component_names m) \<union> fst ` set six_arcs \<union>
      fst ` set (concat (map arc_equalities six_arcs))"
    using ok by (auto simp: component_names_def expand_arcs_def units_ok_def six_arcs_def)
  have d: "\<And>w. declared ?e w = declared m w"
    using v by (rule declared_vars)
  have fr: "''fs.hyd_prod'' \<notin> set (component_names m)"
    "''fs.cooling_cost'' \<notin> set (component_names m)"
    "''fs.heating_cost'' \<notin> set (component_names m)"
    "''fs.compression_cost'' \<notin> set (component_names m)"
    "''fs.operating_cost'' \<notin> set (component_names m)"
    using units_ok_names[OF ok] by (simp_all add: notebook_names_def)
  have n5: "''fs.hyd_prod'' \<notin> set (component_names ?e)"
    "''fs.cooling_cost'' \<notin> set (component_names ?e)"
    "''fs.heating_cost'' \<notin> set (component_names ?e)"
    "''fs.compression_cost'' \<notin> set (component_names ?e)"
    "''fs.operating_cost'' \<notin> set (component_names ?e)"
    unfolding nm using fr
    by (auto simp: six_arcs_def dest!: arc_equalities_names)
  have b: "exec_all (cell_19 fw @ cell_20) ?e =
      Inr (?e\<lparr>expressions := expressions ?e @ five_expressions fw\<rparr>)"
    using p q n5 by (intro cells_19_20_effect) (simp_all add: d)
  have x: "expressions ?e = expressions m" by (simp add: expand_arcs_def)
  show ?thesis
    unfolding flowsheet_def u
    by (simp add: exec_all_append a cell_16_def b[unfolded exec_all_append] x built_def)
qed

lemma mentioned_Cons:
  "mentioned (c # cs) =
     (if act_eq c
      then set (identify_variables (body_lhs (snd c))) \<union> set (identify_variables (body_rhs (snd c)))
      else {}) \<union> mentioned cs"
  by (simp add: mentioned_def)

lemma mentioned_zip:
  "length xs = length ys \<Longrightarrow>
     mentioned (map (\<lambda>(s, d). (n, \<lparr>body_lhs = Var s, body_rhs = Var d, equality = True,
                                    active = True\<rparr>)) (zip xs ys)) = set xs \<union> set ys"
proof (induction xs ys rule: list_induct2)
  case Nil
  then show ?case by (simp add: mentioned_def)
next
  case (Cons x xs y ys)
  then show ?case by (simp add: mentioned_Cons act_eq_def)
qed

lemma length_port_vars: "length (port_vars p) = 8"
  by (cases p) (simp add: port_vars_list)

lemma mentioned_arc_equalities:
  "mentioned (arc_equalities a) =
     set (port_vars (source (snd a))) \<union> set (port_vars (destination (snd a)))"
  unfolding arc_equalities_def
  by (rule mentioned_zip) (simp add: length_port_vars)

lemma mentioned_concat: "mentioned (concat css) = (\<Union>cs \<in> set css. mentioned cs)"
  by (induction css) (simp_all add: mentioned_append, simp add: mentioned_def)

lemma length_arc_equalities: "length (arc_equalities a) = 8"
  by (simp add: arc_equalities_def length_port_vars)

lemma built_fields:
  assumes ok: "units_ok m"
  shows "vars (built fw m) = vars m"
    and "constraints (built fw m) = constraints m @ concat (map arc_equalities six_arcs)"
    and "objectives (built fw m) = []"
    and "expressions (built fw m) = expressions m @ five_expressions fw"
    and "arcs (built fw m) = map (\<lambda>(n, a). (n, a\<lparr>expanded := True\<rparr>)) six_arcs"
  using ok
  by (simp_all add: built_def expand_arcs_def units_ok_def) (simp_all add: six_arcs_def)

lemma built_mentioned:
  assumes ok: "units_ok m"
  shows "mentioned (constraints (built fw m)) =
           mentioned (constraints m) \<union> (\<Union>p \<in> set flowsheet_ports. set (port_vars p))"
  unfolding built_fields(2)[OF ok] mentioned_append mentioned_concat
  by (simp add: six_arcs_def flowsheet_ports_def mentioned_arc_equalities) blast

lemma built_names:
  assumes ok: "units_ok m"
  shows "set (component_names (built fw m)) =
           set (component_names m) \<union> fst ` set six_arcs \<union>
           fst ` set (concat (map arc_equalities six_arcs)) \<union> fst ` set (five_expressions fw)"
  using ok
  by (auto simp: component_names_def built_def expand_arcs_def units_ok_def six_arcs_def)

lemma built_conv_constraint_fresh:
  assumes ok: "units_ok m"
  shows "''fs.R101.conv_constraint'' \<notin> set (component_names (built fw m))"
proof -
  have "''fs.R101.conv_constraint'' \<notin> set (component_names m)"
    using units_ok_names[OF ok] by (simp add: notebook_names_def)
  then show ?thesis
    unfolding built_names[OF ok]
    by (auto simp: six_arcs_def five_expressions_def dest!: arc_equalities_names)
qed

lemma built_objective_fresh:
  assumes ok: "units_ok m"
  shows "''fs.objective'' \<notin> set (component_names (built fw m))"
proof -
  have "''fs.objective'' \<notin> set (component_names m)"
    using units_ok_names[OF ok] by (simp add: notebook_names_def)
  then show ?thesis
    unfolding built_names[OF ok]
    by (auto simp: six_arcs_def five_expressions_def dest!: arc_equalities_names)
qed

lemma changed_by_names: "changed_by g m m' \<Longrightarrow> component_names m' = component_names m"
  by (simp add: changed_by_def component_names_def)

lemma port_vars_mentioned:
  assumes ok: "units_ok m" and p: "p \<in> set flowsheet_ports"
  shows "set (port_vars p) \<subseteq> mentioned (constraints (built fw m))"
  unfolding built_mentioned[OF ok] using p by blast

lemma arc_equalities_member:
  assumes i: "i \<in> set (member_indices sv)"
  shows "(fst a @ ''_expanded'',
          \<lparr>body_lhs = Var (Port_member (fst (source (snd a))) (snd (source (snd a))) sv, i),
           body_rhs = Var (Port_member (fst (destination (snd a))) (snd (destination (snd a))) sv, i),
           equality = True, active = True\<rparr>) \<in> set (arc_equalities a)"
proof -
  obtain u p where s: "source (snd a) = (u, p)" by (cases "source (snd a)")
  obtain u' p' where d: "destination (snd a) = (u', p')" by (cases "destination (snd a)")
  show ?thesis
    using i unfolding arc_equalities_def s d port_vars_list
    by (cases sv) (auto simp: components_def)
qed

lemma exec_expression:
  "is_expression s \<Longrightarrow> exec s m = Inr m' \<Longrightarrow> vars m' = vars m"
  by (cases s) (auto simp: bnd_eq_Inr del_component_def)

lemma exec_all_expressions:
  "list_all is_expression ss \<Longrightarrow> exec_all ss m = Inr m' \<Longrightarrow> vars m' = vars m"
proof (induction ss arbitrary: m)
  case Nil
  then show ?case by simp
next
  case (Cons s ss)
  then obtain m1 where "exec s m = Inr m1" "exec_all ss m1 = Inr m'"
    by (auto simp: bnd_eq_Inr)
  then show ?case
    using Cons.IH[of m1] Cons.prems exec_expression[of s m m1] by simp
qed

section \<open>The cells of the square problem\<close>

lemma fold_step_fix:
  "list_all is_fix ss \<Longrightarrow>
     fixed (fold (\<lambda>s. step s w) ss d) = (fixed d \<or> (\<exists>s \<in> set ss. in_scope s w)) \<and>
     lb (fold (\<lambda>s. step s w) ss d) = lb d \<and> ub (fold (\<lambda>s. step s w) ss d) = ub d"
proof (induction ss arbitrary: d)
  case Nil
  then show ?case by simp
next
  case (Cons s ss)
  then show ?case by (cases s) (auto simp: step_def)
qed

lemma in_scope_targets:
  "fix_ok m s \<Longrightarrow> declared m w \<Longrightarrow> in_scope s w = (w \<in> set (targets s))"
  by (cases s; cases w) (auto simp: time_indexed_def)

lemma in_scope_targets_list:
  "list_all (fix_ok m) ss \<Longrightarrow> declared m w \<Longrightarrow>
     (\<exists>s \<in> set ss. in_scope s w) = (w \<in> set (concat (map targets ss)))"
  by (induction ss) (auto simp: in_scope_targets)

lemma set_targets_cells: "set (concat (map targets (cell_25 @ cell_27))) = set specifications"
  by (rule equalityI) (simp_all add: cell_25_def cell_27_def specifications_def port_vars_list)

lemma units_ok_time_indexed:
  assumes ok: "units_ok m"
  shows "p \<in> set flowsheet_ports \<Longrightarrow> sv \<noteq> mole_frac_comp \<Longrightarrow>
           time_indexed m (Port_member (fst p) (snd p) sv)"
    and "X \<in> set unit_variables \<Longrightarrow> time_indexed m X"
  using units_ok_port[OF ok, of p sv] units_ok_unit_variable[OF ok, of X]
  by (cases sv; simp add: time_indexed_def)+

lemma in_scope_specifications:
  assumes ok: "units_ok m" and d: "declared m w"
  shows "(\<exists>s \<in> set (cell_25 @ cell_27). in_scope s w) = (w \<in> set specifications)"
proof -
  have "list_all (fix_ok m) (cell_25 @ cell_27)"
    using units_ok_time_indexed(1)[OF ok, of "(fs_CH4, outlet)"]
      units_ok_time_indexed(1)[OF ok, of "(fs_H2O, outlet)"]
      units_ok_time_indexed(1)[OF ok, of "(fs_C101, outlet)"]
      units_ok_time_indexed(1)[OF ok, of "(fs_H101, outlet)"]
      units_ok_time_indexed(2)[OF ok, of "Unit_attr fs_C101 efficiency_isentropic"]
    by (simp add: cell_25_def cell_27_def flowsheet_ports_def unit_variables_def)
  then show ?thesis
    using d by (simp only: in_scope_targets_list set_targets_cells)
qed

lemma square_problem_effect:
  assumes ok: "units_ok m0"
  shows "\<exists>m2. square_problem (built fw m0) = Inr m2 \<and> squared fw m0 m2"
proof -
  let ?m1 = "built fw m0"
  let ?X = "Unit_attr fs_R101 conversion"
  have v1: "vars ?m1 = vars m0" by (rule built_fields(1)[OF ok])
  have d1: "\<And>w. declared ?m1 w = declared m0 w" using v1 by (rule declared_vars)
  have vo: "list_all var_only (cell_25 @ cell_27)"
    by (simp add: cell_25_def cell_27_def)
  have pa: "list_all (declared m0) (port_vars (fs_CH4, outlet))"
    "list_all (declared m0) (port_vars (fs_H2O, outlet))"
    "list_all (declared m0) (port_vars (fs_R101, inlet))"
    "list_all (declared m0) (port_vars (fs_R101, outlet))"
    by (rule units_ok_port_vars[OF ok], simp add: flowsheet_ports_def)+
  have hp: "has_port m0 (fs_CH4, outlet)" "has_port m0 (fs_H2O, outlet)"
    "has_port m0 (fs_C101, outlet)" "has_port m0 (fs_H101, outlet)"
    by (rule units_ok_has_port[OF ok], simp add: flowsheet_ports_def)+
  have ef: "vars m0 (Unit_attr fs_C101 efficiency_isentropic) \<noteq> None"
    using units_ok_unit_variable[OF ok, of "Unit_attr fs_C101 efficiency_isentropic" "Time 0"]
    by (intro declared_component[of m0 _ "Time 0"]) (simp add: unit_variables_def)
  have to: "list_all (target_ok ?m1) (cell_25 @ cell_27)"
    using pa hp ef
    by (simp add: cell_25_def cell_27_def d1 v1 port_vars_list has_port_def)
  obtain ma where A: "exec_all (cell_25 @ cell_27) ?m1 = Inr ma"
    using exec_all_var_only_ok[OF vo to] by blast
  have cb: "changed_by (\<lambda>w. fold (\<lambda>s. step s w) (cell_25 @ cell_27)) ?m1 ma"
    using vo A by (rule exec_all_var_only)
  have vn: "vars ma ?X = None"
    using changed_by_component[OF cb, of ?X] ok by (simp add: v1 units_ok_def)
  define mb where "mb = ma\<lparr>vars := (vars ma)(?X \<mapsto>
      [Unindexed \<mapsto> \<lparr>val = Some 0.80, fixed = False, lb = Some 0, ub = Some 1\<rparr>])\<rparr>"
  have B: "exec (New_Var fs_R101 conversion 0.80 0 1) ma = Inr mb"
    by (simp add: vn mb_def add_var_def)
  have dma: "\<And>w. declared ma w = declared m0 w"
    using changed_by_declared[OF cb] d1 by simp
  have dmb: "\<And>w. fst w \<noteq> ?X \<Longrightarrow> declared mb w = declared m0 w"
    using dma by (simp add: declared_def lookup_var_def mb_def)
  have dcv: "declared mb conv_var"
    by (simp add: declared_def lookup_var_def mb_def conv_var_def)
  have nm: "''fs.R101.conv_constraint'' \<notin> set (component_names mb)"
    using built_conv_constraint_fresh[OF ok, of fw] changed_by_names[OF cb]
    by (simp add: mb_def)
  define mc where "mc = mb\<lparr>constraints := constraints mb @ [conv_constraint]\<rparr>"
  have C: "exec (New_Constraint ''fs.R101.conv_constraint'' conv_lhs conv_rhs) mb = Inr mc"
    unfolding mc_def conv_constraint_def
    using pa(3,4) dcv nm
    by (intro exec_New_Constraint)
       (simp_all add: conv_lhs_def conv_rhs_def dmb port_vars_list conv_var_def)
  define m2 where "m2 = mc\<lparr>vars := (vars mc)(?X \<mapsto>
      (\<lambda>i. map_option (\<lambda>d. d\<lparr>val := Some 0.80, fixed := True\<rparr>)
        ([Unindexed \<mapsto> \<lparr>val = Some 0.80, fixed = False, lb = Some 0, ub = Some 1\<rparr>] i)))\<rparr>"
  have D: "exec (Fix ?X 0.80) mc = Inr m2"
    by (simp add: upd_all_def mc_def mb_def m2_def)
  have "square_problem ?m1 = bnd (exec_all (cell_25 @ cell_27) ?m1) (exec_all cell_29)"
    unfolding square_problem_def
    using exec_all_append[of "cell_25 @ cell_27" cell_29 ?m1] by simp
  then have run: "square_problem ?m1 = Inr m2"
    using A B C D by (simp add: cell_29_def del: exec.simps)
  have cs: "constraints m2 = constraints ?m1 @ [conv_constraint]"
    "expressions m2 = expressions ?m1" "objectives m2 = []" "arcs m2 = arcs ?m1"
    using cb built_fields(3)[OF ok, of fw]
    by (simp_all add: m2_def mc_def mb_def changed_by_def)
  have lk: "\<And>w. lookup_var m2 w =
        (if fst w = ?X
         then (if snd w = Unindexed then Inr (conv_data 0.80) else Inl KeyError)
         else (case lookup_var m0 w of
                 Inl e \<Rightarrow> Inl e
               | Inr d \<Rightarrow> Inr (fold (\<lambda>s. step s w) (cell_25 @ cell_27) d)))"
  proof -
    fix w
    show "lookup_var m2 w =
        (if fst w = ?X
         then (if snd w = Unindexed then Inr (conv_data 0.80) else Inl KeyError)
         else (case lookup_var m0 w of
                 Inl e \<Rightarrow> Inl e
               | Inr d \<Rightarrow> Inr (fold (\<lambda>s. step s w) (cell_25 @ cell_27) d)))"
    proof (cases "fst w = ?X")
      case True
      then show ?thesis
        by (simp add: lookup_var_def m2_def conv_data_def)
    next
      case False
      then have "lookup_var m2 w = lookup_var ma w"
        by (simp add: lookup_var_def m2_def mc_def mb_def)
      also have "\<dots> = (case lookup_var ?m1 w of
                 Inl e \<Rightarrow> Inl e
               | Inr d \<Rightarrow> Inr (fold (\<lambda>s. step s w) (cell_25 @ cell_27) d))"
        using cb by (rule changed_by_lookup)
      finally show ?thesis
        using False by (simp add: lookup_var_vars[OF v1])
    qed
  qed
  show ?thesis
    unfolding squared_def using run cs lk by blast
qed

lemma squared_lookup:
  "squared fw m0 m2 \<Longrightarrow> lookup_var m2 w =
        (if fst w = Unit_attr fs_R101 conversion
         then (if snd w = Unindexed then Inr (conv_data 0.80) else Inl KeyError)
         else (case lookup_var m0 w of
                 Inl e \<Rightarrow> Inl e
               | Inr d \<Rightarrow> Inr (fold (\<lambda>s. step s w) (cell_25 @ cell_27) d)))"
  unfolding squared_def by blast

lemma is_fix_cells: "list_all is_fix (cell_25 @ cell_27)"
  by (simp add: cell_25_def cell_27_def)

lemma specifications_declared:
  assumes ok: "units_ok m" and w: "w \<in> set specifications"
  shows "declared m w"
proof -
  have "list_all (declared m) (port_vars (fs_CH4, outlet))"
    "list_all (declared m) (port_vars (fs_H2O, outlet))"
    by (rule units_ok_port_vars[OF ok], simp add: flowsheet_ports_def)+
  moreover have "declared m (Port_member fs_C101 outlet pressure, Time 0)"
    using units_ok_port[OF ok, of "(fs_C101, outlet)" pressure "Time 0"]
    by (simp add: flowsheet_ports_def)
  moreover have "declared m (Port_member fs_H101 outlet temperature, Time 0)"
    using units_ok_port[OF ok, of "(fs_H101, outlet)" temperature "Time 0"]
    by (simp add: flowsheet_ports_def)
  moreover have "declared m (Unit_attr fs_C101 efficiency_isentropic, Time 0)"
    using units_ok_unit_variable[OF ok, of "Unit_attr fs_C101 efficiency_isentropic" "Time 0"]
    by (simp add: unit_variables_def)
  ultimately show ?thesis
    using w by (auto simp: specifications_def list_all_iff)
qed

lemma conversion_not_specification:
  "fst w = Unit_attr fs_R101 conversion \<Longrightarrow> w \<notin> set specifications"
  by (cases w) (auto simp: specifications_def port_vars_list)

lemma conversion_undeclared:
  "units_ok m \<Longrightarrow> fst w = Unit_attr fs_R101 conversion \<Longrightarrow> lookup_var m w = Inl AttributeError"
  by (simp add: units_ok_def lookup_var_def)

lemma squared_is_fixed:
  assumes ok: "units_ok m0" and sq: "squared fw m0 m2"
  shows "is_fixed m2 w = (w = conv_var \<or> is_fixed m0 w \<or> w \<in> set specifications)"
proof (cases "fst w = Unit_attr fs_R101 conversion")
  case True
  then show ?thesis
    using conversion_not_specification[OF True] conversion_undeclared[OF ok True]
    by (cases w) (simp add: is_fixed_def squared_lookup[OF sq] conv_var_def conv_data_def)
next
  case False
  then have nc: "w \<noteq> conv_var" by (auto simp: conv_var_def)
  show ?thesis
  proof (cases "lookup_var m0 w")
    case (Inl e)
    then have "\<not> declared m0 w" by (simp add: declared_def)
    then have "w \<notin> set specifications" using specifications_declared[OF ok] by blast
    then show ?thesis
      using False Inl nc by (simp add: is_fixed_def squared_lookup[OF sq])
  next
    case (Inr d)
    then have "declared m0 w" by (simp add: declared_def)
    then have "(\<exists>s \<in> set (cell_25 @ cell_27). in_scope s w) = (w \<in> set specifications)"
      using ok by (intro in_scope_specifications)
    then show ?thesis
      using False Inr nc fold_step_fix[OF is_fix_cells, of w d]
      by (simp add: is_fixed_def squared_lookup[OF sq])
  qed
qed

lemma squared_declared:
  assumes sq: "squared fw m0 m2"
  shows "declared m2 w = (w = conv_var \<or> (fst w \<noteq> Unit_attr fs_R101 conversion \<and> declared m0 w))"
  by (cases w) (auto simp: declared_def squared_lookup[OF sq] conv_var_def split: sum.splits)

lemma squared_bounds:
  assumes sq: "squared fw m0 m2" and w: "fst w \<noteq> Unit_attr fs_R101 conversion"
  shows "bounds_of m2 w = bounds_of m0 w"
proof (cases "lookup_var m0 w")
  case (Inl e)
  then show ?thesis using w by (simp add: bounds_of_def squared_lookup[OF sq])
next
  case (Inr d)
  then show ?thesis
    using w fold_step_fix[OF is_fix_cells, of w d]
    by (simp add: bounds_of_def squared_lookup[OF sq])
qed

lemma squared_conversion:
  assumes sq: "squared fw m0 m2"
  shows "lookup_var m2 conv_var = Inr (conv_data 0.80)"
  by (simp add: squared_lookup[OF sq] conv_var_def)

lemma distinct_specifications: "distinct specifications"
  by (simp add: specifications_def port_vars_list)

lemma card_specifications: "card (set specifications) = 19"
  using distinct_card[OF distinct_specifications]
  by (simp add: specifications_def port_vars_list)

lemma specifications_mentioned:
  assumes ok: "units_ok m"
  shows "set specifications \<subseteq> mentioned (constraints (built fw m))"
proof -
  have e: "(Unit_attr fs_C101 efficiency_isentropic, Time 0) \<in> mentioned (constraints m)"
    using ok by (simp add: units_ok_def set_variables_in_activated_equalities)
  have "set (port_vars (fs_CH4, outlet)) \<subseteq> mentioned (constraints (built fw m))"
    "set (port_vars (fs_H2O, outlet)) \<subseteq> mentioned (constraints (built fw m))"
    "set (port_vars (fs_C101, outlet)) \<subseteq> mentioned (constraints (built fw m))"
    "set (port_vars (fs_H101, outlet)) \<subseteq> mentioned (constraints (built fw m))"
    by (rule port_vars_mentioned[OF ok], simp add: flowsheet_ports_def)+
  then show ?thesis
    using e unfolding built_mentioned[OF ok] specifications_def
    by (simp add: port_vars_list)
qed

lemma conversion_not_mentioned:
  assumes ok: "units_ok m"
  shows "conv_var \<notin> mentioned (constraints (built fw m))"
proof -
  have "\<not> declared m conv_var"
    using conversion_undeclared[OF ok, of conv_var] by (simp add: declared_def conv_var_def)
  then have "conv_var \<notin> mentioned (constraints m)"
    using ok by (auto simp: units_ok_def set_variables_in_activated_equalities)
  then show ?thesis
    unfolding built_mentioned[OF ok]
    by (simp add: flowsheet_ports_def port_vars_list conv_var_def)
qed

lemma squared_dof:
  assumes ok: "units_ok m0" and sq: "squared fw m0 m2"
  shows "degrees_of_freedom m2 = degrees_of_freedom (built fw m0) - 20"
proof -
  let ?m1 = "built fw m0"
  let ?U = "mentioned (constraints ?m1)"
  have c: "constraints m2 = constraints ?m1 @ [conv_constraint]"
    using sq by (simp add: squared_def)
  have r: "set (port_vars (fs_R101, inlet)) \<subseteq> ?U" "set (port_vars (fs_R101, outlet)) \<subseteq> ?U"
    by (rule port_vars_mentioned[OF ok], simp add: flowsheet_ports_def)+
  have "mentioned [conv_constraint] \<subseteq> ?U \<union> {conv_var}" "conv_var \<in> mentioned [conv_constraint]"
    using r
    by (simp_all add: conv_constraint_def mentioned_single conv_lhs_def conv_rhs_def
        port_vars_list conv_var_def)
  then have u: "mentioned (constraints m2) = ?U \<union> {conv_var}"
    unfolding c mentioned_append by blast
  have n: "{conv_var} \<inter> ?U = {}"
    using conversion_not_mentioned[OF ok] by simp
  have f1: "\<And>v. is_fixed ?m1 v = is_fixed m0 v"
    using built_fields(1)[OF ok] by (rule is_fixed_vars)
  have sm: "set specifications \<subseteq> ?U" by (rule specifications_mentioned[OF ok])
  have f: "{v \<in> mentioned (constraints m2). is_fixed m2 v} =
             {v \<in> ?U. is_fixed ?m1 v} \<union> (set specifications \<union> {conv_var})"
    unfolding u using sm
    by (auto simp: squared_is_fixed[OF ok sq] f1)
  have nf: "\<And>v. v \<in> set specifications \<Longrightarrow> \<not> is_fixed m0 v"
    using ok unfolding units_ok_def by blast
  have d: "(set specifications \<union> {conv_var}) \<inter> {v \<in> ?U. is_fixed ?m1 v} = {}"
    using nf n by (auto simp: f1)
  have k: "length (filter act_eq (constraints m2)) = length (filter act_eq (constraints ?m1)) + 1"
    by (simp add: c conv_constraint_def act_eq_def)
  have cs: "conv_var \<notin> set specifications"
    by (rule conversion_not_specification) (simp add: conv_var_def)
  have cd: "card (set specifications \<union> {conv_var}) = 20"
    using cs card_specifications by simp
  show ?thesis
    using dof_shift[OF u n _ f d _ k] cd by simp
qed

section \<open>Initialisers and solver change values only\<close>

lemma value_changeD:
  "value_change g \<Longrightarrow>
     fixed (g w d) = fixed d \<and> lb (g w d) = lb d \<and> ub (g w d) = ub d \<and>
     (fixed d \<longrightarrow> g w d = d)"
  unfolding value_change_def by blast

lemma revalued_refl: "revalued m m"
  unfolding revalued_def using changed_by_refl[of m]
  by (intro exI[of _ "\<lambda>w d. d"]) (simp add: value_change_def)

lemma revalued_trans: "revalued m m' \<Longrightarrow> revalued m' m'' \<Longrightarrow> revalued m m''"
proof -
  assume a: "revalued m m'" and b: "revalued m' m''"
  from a obtain g where g: "value_change g" "changed_by g m m'" by (auto simp: revalued_def)
  from b obtain h where h: "value_change h" "changed_by h m' m''" by (auto simp: revalued_def)
  have "value_change (\<lambda>w d. h w (g w d))"
    using g(1) h(1) by (simp add: value_change_def)
  then show ?thesis
    unfolding revalued_def using changed_by_trans[OF g(2) h(2)] by blast
qed

lemma changed_by_cong:
  assumes c: "changed_by g m m'"
      and e: "\<And>w d. lookup_var m w = Inr d \<Longrightarrow> g w d = h w d"
  shows "changed_by h m m'"
proof -
  have "\<And>w. lookup_var m' w = (case lookup_var m w of Inl e \<Rightarrow> Inl e | Inr d \<Rightarrow> Inr (h w d))"
  proof -
    fix w
    show "lookup_var m' w = (case lookup_var m w of Inl e \<Rightarrow> Inl e | Inr d \<Rightarrow> Inr (h w d))"
      using changed_by_lookup[OF c, of w] e[of w] by (cases "lookup_var m w") simp_all
  qed
  then show ?thesis using c by (simp add: changed_by_def)
qed

lemma load_values_changed:
  "changed_by (\<lambda>w d. if fixed d then d
                      else (case sol w of None \<Rightarrow> d | Some x \<Rightarrow> d\<lparr>val := Some x\<rparr>))
     m (load_values sol m)"
  by (auto simp: changed_by_def load_values_def lookup_var_def split: option.splits)

lemma load_values_revalued: "revalued m (load_values sol m)"
  unfolding revalued_def
  by (intro exI conjI, rule_tac [2] load_values_changed)
     (auto simp: value_change_def split: option.splits)

lemma upd_at_value_revalued:
  assumes u: "upd_at v (\<lambda>d. d\<lparr>val := Some x\<rparr>) m = Inr m'"
      and l: "lookup_var m v = Inr dd" and nf: "\<not> fixed dd"
  shows "revalued m m'"
proof -
  have "changed_by (\<lambda>w d. if w = v then d\<lparr>val := Some x\<rparr> else d) m m'"
    using u by (rule upd_at_changed)
  then have "changed_by (\<lambda>w d. if w = v \<and> \<not> fixed d then d\<lparr>val := Some x\<rparr> else d) m m'"
  proof (rule changed_by_cong)
    fix w d
    assume "lookup_var m w = Inr d"
    then show "(if w = v then d\<lparr>val := Some x\<rparr> else d) =
               (if w = v \<and> \<not> fixed d then d\<lparr>val := Some x\<rparr> else d)"
      using l nf by auto
  qed
  moreover have "value_change (\<lambda>w d. if w = v \<and> \<not> fixed d then d\<lparr>val := Some x\<rparr> else d)"
    by (simp add: value_change_def)
  ultimately show ?thesis unfolding revalued_def by blast
qed

lemma copy_values_revalued: "copy_values ps m = Inr m' \<Longrightarrow> revalued m m'"
proof (induction ps arbitrary: m)
  case Nil
  then show ?case by (simp add: revalued_refl)
next
  case (Cons p ps)
  obtain s d where p: "p = (s, d)" by (cases p)
  from Cons.prems obtain sd dd where sd: "lookup_var m s = Inr sd" and dd: "lookup_var m d = Inr dd"
    by (auto simp: p bnd_eq_Inr)
  show ?case
  proof (cases "fixed dd")
    case True
    then show ?thesis using Cons sd dd by (simp add: p)
  next
    case False
    with Cons.prems sd dd obtain x m1 where x: "val sd = Some x"
      and m1: "upd_at d (\<lambda>d. d\<lparr>val := Some x\<rparr>) m = Inr m1"
      and r: "copy_values ps m1 = Inr m'"
      by (auto simp: p bnd_eq_Inr split: option.splits)
    have "revalued m m1" using m1 dd False by (rule upd_at_value_revalued)
    moreover have "revalued m1 m'" using r by (rule Cons.IH)
    ultimately show ?thesis by (rule revalued_trans)
  qed
qed

lemma init_exec_revalued: "init_exec fw s m = Inr m' \<Longrightarrow> revalued m m'"
proof (cases s)
  case (Initialize u)
  assume "init_exec fw s m = Inr m'"
  then show ?thesis
    using Initialize by (auto simp: bnd_eq_Inr load_values_revalued)
next
  case (Propagate_state n)
  assume "init_exec fw s m = Inr m'"
  then show ?thesis
    using Propagate_state
    by (auto simp: propagate_state_def copy_values_revalued split: option.splits)
qed

lemma init_all_revalued: "init_all fw ss m = Inr m' \<Longrightarrow> revalued m m'"
proof (induction ss arbitrary: m)
  case Nil
  then show ?case by (simp add: revalued_refl)
next
  case (Cons s ss)
  then obtain m1 where "init_exec fw s m = Inr m1" "init_all fw ss m1 = Inr m'"
    by (auto simp: bnd_eq_Inr)
  then show ?case
    using Cons.IH init_exec_revalued revalued_trans by blast
qed

lemma solver_solve_revalued: "solver_solve fw m = Inr r \<Longrightarrow> revalued m (snd r)"
  by (auto simp: solver_solve_def bnd_eq_Inr load_values_revalued)

lemma revalued_fields:
  assumes "revalued m m'"
  shows "constraints m' = constraints m" "expressions m' = expressions m"
    "objectives m' = objectives m" "arcs m' = arcs m"
    "component_names m' = component_names m"
  using assms by (auto simp: revalued_def changed_by_def component_names_def)

lemma revalued_lookup:
  assumes "revalued m m'"
  shows "(\<exists>e. lookup_var m w = Inl e \<and> lookup_var m' w = Inl e) \<or>
         (\<exists>d d'. lookup_var m w = Inr d \<and> lookup_var m' w = Inr d' \<and> fixed d' = fixed d \<and>
                  lb d' = lb d \<and> ub d' = ub d \<and> (fixed d \<longrightarrow> d' = d))"
proof -
  from assms obtain g where g: "value_change g" "changed_by g m m'"
    by (auto simp: revalued_def)
  show ?thesis
  proof (cases "lookup_var m w")
    case (Inl e)
    then show ?thesis using changed_by_lookup[OF g(2), of w] by simp
  next
    case (Inr d)
    then show ?thesis
      using changed_by_lookup[OF g(2), of w] value_changeD[OF g(1), of w d] by simp
  qed
qed

lemma revalued_is_fixed: "revalued m m' \<Longrightarrow> is_fixed m' w = is_fixed m w"
  using revalued_lookup[of m m' w] by (auto simp: is_fixed_def)

lemma revalued_declared: "revalued m m' \<Longrightarrow> declared m' w = declared m w"
  using revalued_lookup[of m m' w] by (auto simp: declared_def)

lemma revalued_bounds: "revalued m m' \<Longrightarrow> bounds_of m' w = bounds_of m w"
  using revalued_lookup[of m m' w] by (auto simp: bounds_of_def)

lemma revalued_dof: "revalued m m' \<Longrightarrow> degrees_of_freedom m' = degrees_of_freedom m"
  by (rule dof_cong) (simp_all add: revalued_fields revalued_is_fixed)

lemma solve_and_check_Inr:
  "solve_and_check fw m = Inr m' \<longleftrightarrow> (\<exists>s. solve fw m = Inr (optimal, s) \<and> m' = load_values s m)"
  by (cases "solve fw m")
     (auto simp: solve_and_check_def solver_solve_def bnd_eq_Inr py_assert_def split: if_splits)

lemma solve_and_check_revalued: "solve_and_check fw m = Inr m' \<Longrightarrow> revalued m m'"
  by (auto simp: solve_and_check_Inr load_values_revalued)

lemma solve_and_check_cases:
  "solve fw m = Inl e \<Longrightarrow> solve_and_check fw m = Inl e"
  "solve fw m = Inr (tc, s) \<Longrightarrow> tc \<noteq> optimal \<Longrightarrow> solve_and_check fw m = Inl AssertionError"
  "solve fw m = Inr (optimal, s) \<Longrightarrow> solve_and_check fw m = Inr (load_values s m)"
  by (simp_all add: solve_and_check_def solver_solve_def py_assert_def)

lemma square_results_same: "square_results fw m = Inr m' \<Longrightarrow> m' = m"
  by (auto simp: square_results_def bnd_eq_Inr)

lemma optimal_results_same: "optimal_results fw m = Inr m' \<Longrightarrow> m' = m"
  by (auto simp: optimal_results_def bnd_eq_Inr)

lemma py_assert_Inr: "py_assert b = Inr u \<longleftrightarrow> b"
  by (simp add: py_assert_def)

lemma flowsheet_is_built:
  "unit_models fw = Inr m0 \<Longrightarrow> units_ok m0 \<Longrightarrow> flowsheet fw = Inr m1 \<Longrightarrow> m1 = built fw m0"
  using flowsheet_built[of fw m0] by simp

lemma before_first_solve_stages:
  assumes "before_first_solve fw = Inr ma"
  shows "\<exists>m1 m2. flowsheet fw = Inr m1 \<and> degrees_of_freedom m1 = 20 \<and>
           square_problem m1 = Inr m2 \<and> degrees_of_freedom m2 = 0 \<and>
           init_all fw cell_34 m2 = Inr ma"
  using assms unfolding before_first_solve_def bnd_eq_Inr py_assert_Inr by blast

section \<open>The cells of the optimization problem\<close>

lemma squared_names:
  assumes ok: "units_ok m0" and sq: "squared fw m0 m2"
  shows "set (component_names m2) =
           set (component_names (built fw m0)) \<union> {''fs.R101.conv_constraint''}"
  using sq built_fields(3)[OF ok, of fw]
  by (auto simp: squared_def component_names_def conv_constraint_def)

lemma units_declared:
  assumes ok: "units_ok m0" and sq: "squared fw m0 m2" and rv: "revalued m2 m"
  shows "fst w \<noteq> Unit_attr fs_R101 conversion \<Longrightarrow> declared m w = declared m0 w"
    and "declared m (Unit_attr fs_R101 conversion, i) = (i = Unindexed)"
  using squared_declared[OF sq, of w] squared_declared[OF sq, of "(Unit_attr fs_R101 conversion, i)"]
  by (auto simp: revalued_declared[OF rv] conv_var_def)

lemma optimization_problem_effect:
  assumes ok: "units_ok m0" and sq: "squared fw m0 m2" and rv: "revalued m2 m"
  shows "\<exists>m4. optimization_problem m = Inr m4 \<and> optimized m m4"
proof -
  have dq: "declared m (Unit_attr fs_R101 heat_duty, Time 0)"
    "declared m (Unit_attr fs_H101 heat_duty, Time 0)"
    "declared m (Unit_attr fs_C101 work_isentropic, Time 0)"
    using ok by (simp_all add: units_declared(1)[OF ok sq rv] units_ok_unit_variable
        unit_variables_def)
  have dp: "declared m P_var" "declared m T_var"
    using units_ok_port[OF ok, of "(fs_C101, outlet)" pressure "Time 0"]
      units_ok_port[OF ok, of "(fs_H101, outlet)" temperature "Time 0"]
    by (simp_all add: units_declared(1)[OF ok sq rv] flowsheet_ports_def P_var_def T_var_def)
  have dc: "declared m conv_var"
    using units_declared(2)[OF ok sq rv, of Unindexed] by (simp add: conv_var_def)
  have nm: "''fs.objective'' \<notin> set (component_names m)"
    using built_objective_fresh[OF ok, of fw]
    by (simp add: revalued_fields(5)[OF rv] squared_names[OF ok sq])
  have ob: "objectives m = []"
    using sq by (simp add: revalued_fields(3)[OF rv] squared_def)
  define m' where "m' = m\<lparr>objectives := objectives m @ [objective]\<rparr>"
  have A: "exec_all cell_45 m = Inr m'"
    using dq nm
    by (simp add: cell_45_def m'_def objective_def exec_New_Objective operating_cost_def
        heating_cost_def cooling_cost_def compression_cost_def del: exec.simps)
  have vo: "list_all var_only cell_47" by (simp add: cell_47_def)
  have to: "list_all (target_ok m') cell_47"
    using dq dp dc declared_component[of m "Unit_attr fs_R101 conversion" Unindexed]
      declared_component[of m "Port_member fs_C101 outlet pressure" "Time 0"]
      declared_component[of m "Port_member fs_H101 outlet temperature" "Time 0"]
    by (simp add: cell_47_def m'_def P_var_def T_var_def conv_var_def)
  obtain m4 where B: "exec_all cell_47 m' = Inr m4"
    using exec_all_var_only_ok[OF vo to] by blast
  have cb: "changed_by (\<lambda>w. fold (\<lambda>s. step s w) cell_47) m' m4"
    using vo B by (rule exec_all_var_only)
  have run: "optimization_problem m = Inr m4"
    by (simp add: optimization_problem_def exec_all_append A B)
  have l: "\<And>w. lookup_var m' w = lookup_var m w"
    by (simp add: lookup_var_def m'_def)
  have "optimized m m4"
    unfolding optimized_def using cb ob
    by (simp add: changed_by_def l) (simp add: m'_def)
  with run show ?thesis by blast
qed

lemma optimized_lookup:
  "optimized m m4 \<Longrightarrow> lookup_var m4 w =
        (case lookup_var m w of
           Inl e \<Rightarrow> Inl e
         | Inr d \<Rightarrow> Inr (fold (\<lambda>s. step s w) cell_47 d))"
  unfolding optimized_def by blast

lemma fold_cell_47:
  "fold (\<lambda>s. step s (X, i)) cell_47 d =
     (if X = Unit_attr fs_R101 conversion then d\<lparr>val := Some 0.90, fixed := True\<rparr>
      else if X = Port_member fs_C101 outlet pressure
        then (if i = Time 0 then d\<lparr>fixed := False, lb := Some (bar_to_Pa 10)\<rparr>
              else d\<lparr>fixed := False\<rparr>)
      else if X = Port_member fs_H101 outlet temperature
        then (if i = Time 0 then d\<lparr>fixed := False, ub := Some 1000\<rparr>
              else d\<lparr>fixed := False\<rparr>)
      else if (X, i) = (Unit_attr fs_H101 heat_duty, Time 0) then d\<lparr>lb := Some 0\<rparr>
      else d)"
  by (simp add: cell_47_def step_def)

lemma square_model_fixed:
  assumes ok: "units_ok m0" and sq: "squared fw m0 m2" and rv: "revalued m2 m"
  shows "is_fixed m w = (w = conv_var \<or> is_fixed m0 w \<or> w \<in> set specifications)"
  by (simp add: revalued_is_fixed[OF rv] squared_is_fixed[OF ok sq])

lemma P_T_specifications: "P_var \<in> set specifications" "T_var \<in> set specifications"
  by (simp_all add: specifications_def P_var_def T_var_def)

lemma optimized_is_fixed:
  assumes ok: "units_ok m0" and sq: "squared fw m0 m2" and rv: "revalued m2 m"
      and op: "optimized m m4"
  shows "is_fixed m4 w = (is_fixed m w \<and> w \<noteq> P_var \<and> w \<noteq> T_var)"
proof -
  obtain X i where w: "w = (X, i)" by (cases w)
  show ?thesis
  proof (cases "lookup_var m w")
    case (Inl e)
    then show ?thesis by (simp add: is_fixed_def optimized_lookup[OF op])
  next
    case (Inr d)
    then have dw: "declared m w" by (simp add: declared_def)
    have fx: "is_fixed m4 w = fixed (fold (\<lambda>s. step s w) cell_47 d)"
      using Inr by (simp add: is_fixed_def optimized_lookup[OF op])
    have fd: "is_fixed m w = fixed d" using Inr by (simp add: is_fixed_def)
    consider (c) "X = Unit_attr fs_R101 conversion"
      | (p) "X = Port_member fs_C101 outlet pressure"
      | (t) "X = Port_member fs_H101 outlet temperature"
      | (o) "X \<noteq> Unit_attr fs_R101 conversion" "X \<noteq> Port_member fs_C101 outlet pressure"
            "X \<noteq> Port_member fs_H101 outlet temperature"
      by blast
    then show ?thesis
    proof cases
      case c
      then have "w = conv_var"
        using dw units_declared(2)[OF ok sq rv, of i] by (simp add: w conv_var_def)
      then show ?thesis
        using c square_model_fixed[OF ok sq rv, of w] fx[unfolded w]
        by (simp add: w fold_cell_47 P_var_def T_var_def conv_var_def)
    next
      case p
      then have "i = Time 0"
        using dw units_declared(1)[OF ok sq rv, of w]
          units_ok_port[OF ok, of "(fs_C101, outlet)" pressure i]
        by (simp add: w flowsheet_ports_def)
      then show ?thesis using p fx[unfolded w] by (simp add: w fold_cell_47 P_var_def)
    next
      case t
      then have "i = Time 0"
        using dw units_declared(1)[OF ok sq rv, of w]
          units_ok_port[OF ok, of "(fs_H101, outlet)" temperature i]
        by (simp add: w flowsheet_ports_def)
      then show ?thesis using t fx[unfolded w] by (simp add: w fold_cell_47 T_var_def)
    next
      case o
      then show ?thesis
        using fx[unfolded w] fd[unfolded w]
        by (auto simp: w fold_cell_47 P_var_def T_var_def)
    qed
  qed
qed

lemma optimized_bounds_P:
  assumes op: "optimized m m4" and b: "bounds_of m P_var = Inr (l, u)"
  shows "bounds_of m4 P_var = Inr (Some (bar_to_Pa 10), u)"
  using b
  by (cases "lookup_var m P_var")
     (simp_all add: bounds_of_def optimized_lookup[OF op], simp add: P_var_def fold_cell_47)

lemma optimized_conversion:
  assumes op: "optimized m m4" and d: "declared m conv_var"
  shows "value_of_var m4 conv_var = Some 0.90" "is_fixed m4 conv_var"
  using d
  by (cases "lookup_var m conv_var";
      simp add: declared_def value_of_var_def is_fixed_def optimized_lookup[OF op];
      simp add: conv_var_def fold_cell_47)+

lemma optimized_dof:
  assumes ok: "units_ok m0" and sq: "squared fw m0 m2" and rv: "revalued m2 m"
      and op: "optimized m m4"
  shows "degrees_of_freedom m4 = degrees_of_freedom m + 2"
proof -
  have c: "constraints m4 = constraints m" using op by (simp add: optimized_def)
  have cm: "constraints m = constraints (built fw m0) @ [conv_constraint]"
    using sq by (simp add: revalued_fields(1)[OF rv] squared_def)
  have "set (port_vars (fs_C101, outlet)) \<subseteq> mentioned (constraints (built fw m0))"
    "set (port_vars (fs_H101, outlet)) \<subseteq> mentioned (constraints (built fw m0))"
    by (rule port_vars_mentioned[OF ok], simp add: flowsheet_ports_def)+
  then have s: "{P_var, T_var} \<subseteq> mentioned (constraints m)"
    by (simp add: cm mentioned_append port_vars_list P_var_def T_var_def)
  have f: "\<And>v. v \<in> {P_var, T_var} \<Longrightarrow> is_fixed m v"
    using P_T_specifications by (auto simp: square_model_fixed[OF ok sq rv])
  have "degrees_of_freedom m4 = degrees_of_freedom m + int (card {P_var, T_var})"
    using c _ s f
    by (rule dof_unfix) (auto simp: optimized_is_fixed[OF ok sq rv op])
  then show ?thesis by (simp add: P_var_def T_var_def)
qed

section \<open>The notebook on the sample framework\<close>

text \<open>
  The sample unit models meet \<open>units_ok\<close>; the flowsheet built from them has 20 degrees of
  freedom; and the run goes through every cell.
\<close>

lemma sample_dof_20: "degrees_of_freedom (built sample sample_units) = 20"
  by code_simp

lemma sample_stages:
  "map_sum id (\<lambda>m. ())
     (bnd (square_problem (built sample sample_units)) (\<lambda>m2.
      bnd (init_all sample cell_34 m2) (\<lambda>m3.
      bnd (solve_and_check sample m3) (\<lambda>m4.
      bnd (square_results sample m4) (\<lambda>m5.
      bnd (optimization_problem m5) (\<lambda>m6.
      bnd (solve_and_check sample m6) (optimal_results sample))))))) = Inr ()"
  by code_simp

lemma sample_eff: "(Unit_attr fs_C101 efficiency_isentropic, Time 0)
        \<in> set (variables_in_activated_equalities sample_units)"
  by code_simp

lemma sample_mentioned_declared:
  "list_all (declared sample_units) (variables_in_activated_equalities sample_units)"
  by code_simp

lemma sample_names: "list_all (\<lambda>n. n \<notin> set (component_names sample_units)) notebook_names"
  by code_simp

lemma sample_run_stages:
  "\<exists>m2 m3 m4 m6 m7.
     square_problem (built sample sample_units) = Inr m2 \<and> init_all sample cell_34 m2 = Inr m3 \<and>
     solve_and_check sample m3 = Inr m4 \<and> square_results sample m4 = Inr m4 \<and>
     optimization_problem m4 = Inr m6 \<and> solve_and_check sample m6 = Inr m7 \<and>
     optimal_results sample m7 = Inr m7"
proof -
  let ?X = "bnd (square_problem (built sample sample_units)) (\<lambda>m2.
      bnd (init_all sample cell_34 m2) (\<lambda>m3.
      bnd (solve_and_check sample m3) (\<lambda>m4.
      bnd (square_results sample m4) (\<lambda>m5.
      bnd (optimization_problem m5) (\<lambda>m6.
      bnd (solve_and_check sample m6) (optimal_results sample))))))"
  have "map_sum id (\<lambda>m. ()) ?X = Inr ()" by (rule sample_stages)
  then obtain mf where "?X = Inr mf" by (cases ?X) simp_all
  then obtain m2 m3 m4 m5 m6 m7 where s:
    "square_problem (built sample sample_units) = Inr m2" "init_all sample cell_34 m2 = Inr m3"
    "solve_and_check sample m3 = Inr m4" "square_results sample m4 = Inr m5"
    "optimization_problem m5 = Inr m6" "solve_and_check sample m6 = Inr m7"
    "optimal_results sample m7 = Inr mf"
    unfolding bnd_eq_Inr by blast
  have "m5 = m4" using s(4) by (rule square_results_same)
  moreover have "mf = m7" using s(7) by (rule optimal_results_same)
  ultimately show ?thesis using s by blast
qed

lemma sample_not_fixed: "\<not> is_fixed sample_units v"
proof (cases v)
  case (Pair X i)
  show ?thesis
  proof (cases X)
    case (Port_member u p sv)
    then show ?thesis
      by (cases sv) (simp_all add: Pair is_fixed_def lookup_var_def sample_units_def free_var_def)
  next
    case (Unit_attr u a)
    then show ?thesis
      by (simp add: Pair is_fixed_def lookup_var_def sample_units_def free_var_def)
  qed
qed

lemma sample_units_ok: "units_ok sample_units"
proof -
  have a: "\<forall>p \<in> set flowsheet_ports. \<forall>sv i.
        declared sample_units (Port_member (fst p) (snd p) sv, i) = (i \<in> set (member_indices sv))"
    by (auto simp: declared_def lookup_var_def sample_units_def)
  have b: "\<forall>X \<in> set unit_variables. \<forall>i. declared sample_units (X, i) = (i = Time 0)"
    by (auto simp: declared_def lookup_var_def sample_units_def unit_variables_def)
  have c: "vars sample_units (Unit_attr fs_R101 conversion) = None"
    by (simp add: sample_units_def)
  have d: "\<And>v. \<not> is_fixed sample_units v" by (rule sample_not_fixed)
  have e: "\<forall>v \<in> set (variables_in_activated_equalities sample_units). declared sample_units v"
    using sample_mentioned_declared by (simp add: list_all_iff)
  have f: "\<forall>n \<in> set notebook_names. n \<notin> set (component_names sample_units)"
    using sample_names by (simp add: list_all_iff)
  show ?thesis
    unfolding units_ok_def using a b c d sample_eff e f by (simp add: sample_units_def)
qed

lemma sample_unit_models: "unit_models sample = Inr sample_units"
  by (simp add: sample_def)

lemma sample_flowsheet: "flowsheet sample = Inr (built sample sample_units)"
  using sample_unit_models sample_units_ok by (rule flowsheet_built)

lemma sample_reaches_solves:
  "\<exists>m2 ma m mb mf. square_problem (built sample sample_units) = Inr m2 \<and> squared sample sample_units m2 \<and>
     init_all sample cell_34 m2 = Inr ma \<and>
     before_first_solve sample = Inr ma \<and> solve_and_check sample ma = Inr m \<and>
     square_results sample m = Inr m \<and> optimization_problem m = Inr mb \<and> optimized m mb \<and>
     before_second_solve m = Inr mb \<and>
     solve_and_check sample mb = Inr mf \<and> optimal_results sample mf = Inr mf"
proof -
  obtain m2 m3 m4 m6 m7 where s:
     "square_problem (built sample sample_units) = Inr m2" "init_all sample cell_34 m2 = Inr m3"
     "solve_and_check sample m3 = Inr m4" "square_results sample m4 = Inr m4"
     "optimization_problem m4 = Inr m6" "solve_and_check sample m6 = Inr m7"
     "optimal_results sample m7 = Inr m7"
    using sample_run_stages by blast
  obtain m2' where "square_problem (built sample sample_units) = Inr m2'" "squared sample sample_units m2'"
    using square_problem_effect[OF sample_units_ok, of sample] by blast
  then have sq: "squared sample sample_units m2" using s(1) by simp
  have d2: "degrees_of_freedom m2 = 0"
    using squared_dof[OF sample_units_ok sq] sample_dof_20 by simp
  have b1: "before_first_solve sample = Inr m3"
    by (simp add: before_first_solve_def sample_flowsheet sample_dof_20 py_assert_def s(1) d2 s(2))
  have rv: "revalued m2 m4"
    using init_all_revalued[OF s(2)] solve_and_check_revalued[OF s(3)] by (rule revalued_trans)
  obtain m6' where "optimization_problem m4 = Inr m6'" "optimized m4 m6'"
    using optimization_problem_effect[OF sample_units_ok sq rv] by blast
  then have op: "optimized m4 m6" using s(5) by simp
  have d6: "degrees_of_freedom m6 = 2"
    using optimized_dof[OF sample_units_ok sq rv op] revalued_dof[OF rv] d2 by simp
  have b2: "before_second_solve m4 = Inr m6"
    by (simp add: before_second_solve_def s(5) d6 py_assert_def)
  show ?thesis using s sq b1 op b2 by blast
qed

lemma sample_pressure_bounds:
  "bounds_of sample_units (Port_member fs_C101 outlet pressure, Time 0) =
     Inr (Some (5 * 10 ^ 4), Some (10 ^ 8))"
  by (simp add: bounds_of_def lookup_var_def sample_units_def flowsheet_ports_def free_var_def)







section \<open>The first exception in a cell\<close>




section \<open>The cells that declare the arcs and the expressions\<close>

lemma cells_14_16_effect:
  assumes ok: "units_ok m"
  shows "exec_all (cell_14 @ cell_16) m = Inr (expand_arcs (m\<lparr>arcs := arcs m @ six_arcs\<rparr>))"
proof -
  have a: "exec_all cell_14 m = Inr (m\<lparr>arcs := arcs m @ six_arcs\<rparr>)"
    using units_ok_has_port[OF ok] units_ok_names[OF ok] by (rule cell_14_effect)
  show ?thesis by (simp add: exec_all_append a cell_16_def)
qed

lemma expanded_names_fresh:
  assumes ok: "units_ok m"
  shows "list_all (\<lambda>n. n \<notin> set (component_names (expand_arcs (m\<lparr>arcs := arcs m @ six_arcs\<rparr>))))
           [''fs.hyd_prod'', ''fs.cooling_cost'', ''fs.heating_cost'', ''fs.compression_cost'',
            ''fs.operating_cost'']"
proof -
  let ?e = "expand_arcs (m\<lparr>arcs := arcs m @ six_arcs\<rparr>)"
  have nm: "set (component_names ?e) =
      set (component_names m) \<union> fst ` set six_arcs \<union>
      fst ` set (concat (map arc_equalities six_arcs))"
    using ok by (auto simp: component_names_def expand_arcs_def units_ok_def six_arcs_def)
  have fr: "''fs.hyd_prod'' \<notin> set (component_names m)"
    "''fs.cooling_cost'' \<notin> set (component_names m)"
    "''fs.heating_cost'' \<notin> set (component_names m)"
    "''fs.compression_cost'' \<notin> set (component_names m)"
    "''fs.operating_cost'' \<notin> set (component_names m)"
    using units_ok_names[OF ok] by (simp_all add: notebook_names_def)
  show ?thesis
    unfolding nm using fr
    by (auto simp: six_arcs_def dest!: arc_equalities_names)
qed

lemma cells_19_20_fresh:
  assumes r: "exec_all (cell_19 fw @ cell_20) m = Inr m'"
      and f: "list_all (\<lambda>n. n \<notin> set (component_names m))
           [''fs.hyd_prod'', ''fs.cooling_cost'', ''fs.heating_cost'', ''fs.compression_cost'',
            ''fs.operating_cost'']"
  shows "m' = m\<lparr>expressions := expressions m @ five_expressions fw\<rparr>"
  using r f
  by (auto simp: cell_19_def cell_20_def bnd_eq_Inr del_component_fresh five_expressions_def)

section \<open>From one count of the degrees of freedom to the next\<close>

text \<open>
  The degrees of freedom of the flowsheet are a count over the variables and the equations
  of the unit models, which the framework builds; the notebook asserts that the count is 20.
  From that count the statements of the notebook give the next two: 0 after cells 25 to 29,
  and 2 after cells 45 and 47, for every framework that meets \<open>units_ok\<close> and whatever
  values the initialisers and the first solve leave in the variables.
\<close>

lemma degrees_of_freedom_steps:
  assumes "unit_models fw = Inr m0" and "units_ok m0"
      and "flowsheet fw = Inr m1" and "degrees_of_freedom m1 = 20"
  shows "\<exists>m2. square_problem m1 = Inr m2 \<and> degrees_of_freedom m2 = 0 \<and>
           (\<forall>m3 r. init_all fw cell_34 m2 = Inr m3 \<longrightarrow> solver_solve fw m3 = Inr r \<longrightarrow>
              (\<exists>m4. optimization_problem (snd r) = Inr m4 \<and> degrees_of_freedom m4 = 2))"
proof -
  have m1: "m1 = built fw m0" using assms(1-3) by (rule flowsheet_is_built)
  obtain m2 where sp: "square_problem m1 = Inr m2" and sq: "squared fw m0 m2"
    using square_problem_effect[OF assms(2), of fw] m1 by blast
  have d2: "degrees_of_freedom m2 = 0"
    using squared_dof[OF assms(2) sq] assms(4) m1 by simp
  have "\<exists>m4. optimization_problem (snd r) = Inr m4 \<and> degrees_of_freedom m4 = 2"
    if i: "init_all fw cell_34 m2 = Inr m3" and s: "solver_solve fw m3 = Inr r" for m3 r
  proof -
    have rv: "revalued m2 (snd r)"
      using init_all_revalued[OF i] solver_solve_revalued[OF s] by (rule revalued_trans)
    obtain m4 where o: "optimization_problem (snd r) = Inr m4" and op: "optimized (snd r) m4"
      using optimization_problem_effect[OF assms(2) sq rv] by blast
    have "degrees_of_freedom m4 = 2"
      using optimized_dof[OF assms(2) sq rv op] revalued_dof[OF rv] d2 by simp
    with o show ?thesis by blast
  qed
  with sp d2 show ?thesis by blast
qed

lemma degrees_of_freedom_steps_sample:
  "\<exists>m1 m2 m3 r m4. flowsheet sample = Inr m1 \<and> degrees_of_freedom m1 = 20 \<and>
     square_problem m1 = Inr m2 \<and> degrees_of_freedom m2 = 0 \<and>
     init_all sample cell_34 m2 = Inr m3 \<and> solver_solve sample m3 = Inr r \<and>
     optimization_problem (snd r) = Inr m4 \<and> degrees_of_freedom m4 = 2"
proof -
  obtain m2 ma m where s: "square_problem (built sample sample_units) = Inr m2"
    "init_all sample cell_34 m2 = Inr ma" "solve_and_check sample ma = Inr m"
    using sample_reaches_solves by blast
  obtain r where r: "solver_solve sample ma = Inr r"
    using s(3) by (auto simp: solve_and_check_def bnd_eq_Inr)
  obtain m2' where t: "square_problem (built sample sample_units) = Inr m2'"
    "degrees_of_freedom m2' = 0"
    "\<forall>m3 r. init_all sample cell_34 m2' = Inr m3 \<longrightarrow> solver_solve sample m3 = Inr r \<longrightarrow>
        (\<exists>m4. optimization_problem (snd r) = Inr m4 \<and> degrees_of_freedom m4 = 2)"
    using degrees_of_freedom_steps[OF sample_unit_models sample_units_ok sample_flowsheet sample_dof_20]
    by blast
  have e: "m2' = m2" using t(1) s(1) by simp
  obtain m4 where "optimization_problem (snd r) = Inr m4" "degrees_of_freedom m4 = 2"
    using t(3) s(2) r unfolding e by blast
  then show ?thesis
    using sample_flowsheet sample_dof_20 s(1,2) t(2) r unfolding e by blast
qed

section \<open>The bounds of the compressor outlet pressure\<close>

text \<open>
  Cell 47 sets the lower bound of the compressor outlet pressure twice, to 1 bar and then to
  10 bar, and no cell sets its upper bound: in the model passed to the second solve the
  lower bound is 1e6 Pa and the upper bound is the one the unit model was built with.
\<close>

lemma pressure_bounds_second_solve:
  assumes "unit_models fw = Inr m0" and "units_ok m0"
      and "before_first_solve fw = Inr ma" and "solve_and_check fw ma = Inr m"
      and "bounds_of m0 (Port_member fs_C101 outlet pressure, Time 0) = Inr (l, u)"
  shows "filter (bound_calls (Port_member fs_C101 outlet pressure, Time 0)) cell_47 =
           [Setlb (Port_member fs_C101 outlet pressure, Time 0) (bar_to_Pa 1),
            Setlb (Port_member fs_C101 outlet pressure, Time 0) (bar_to_Pa 10)] \<and>
         filter (bound_calls (Port_member fs_C101 outlet pressure, Time 0))
           (cell_14 @ cell_16 @ cell_19 fw @ cell_20 @ cell_25 @ cell_27 @ cell_29 @ cell_45) = [] \<and>
         (\<exists>m4. before_second_solve m = Inr m4 \<and>
            bounds_of m4 (Port_member fs_C101 outlet pressure, Time 0) = Inr (Some (10 ^ 6), u)) \<and>
         bar_to_Pa 10 = 1.000 * 10 ^ 6"
proof -
  obtain m1 m2 where st: "flowsheet fw = Inr m1" "degrees_of_freedom m1 = 20"
    "square_problem m1 = Inr m2" "degrees_of_freedom m2 = 0" "init_all fw cell_34 m2 = Inr ma"
    using before_first_solve_stages[OF assms(3)] by blast
  have m1: "m1 = built fw m0" using assms(1,2) st(1) by (rule flowsheet_is_built)
  obtain m2' where "square_problem m1 = Inr m2'" and "squared fw m0 m2'"
    using square_problem_effect[OF assms(2), of fw] m1 by blast
  then have sq: "squared fw m0 m2" using st(3) by simp
  have rv: "revalued m2 m"
    using init_all_revalued[OF st(5)] solve_and_check_revalued[OF assms(4)]
    by (rule revalued_trans)
  obtain m4 where o: "optimization_problem m = Inr m4" and op: "optimized m m4"
    using optimization_problem_effect[OF assms(2) sq rv] by blast
  have d2: "degrees_of_freedom m4 = 2"
    using optimized_dof[OF assms(2) sq rv op] revalued_dof[OF rv] st(4) by simp
  have b: "before_second_solve m = Inr m4"
    by (simp add: before_second_solve_def o d2 py_assert_def)
  have "bounds_of m P_var = Inr (l, u)"
    using assms(5) squared_bounds[OF sq, of P_var]
    by (simp add: revalued_bounds[OF rv] P_var_def)
  then have "bounds_of m4 P_var = Inr (Some (10 ^ 6), u)"
    using optimized_bounds_P[OF op] by (simp add: bar_to_Pa_def)
  then have e: "\<exists>m4. before_second_solve m = Inr m4 \<and>
            bounds_of m4 (Port_member fs_C101 outlet pressure, Time 0) = Inr (Some (10 ^ 6), u)"
    using b by (auto simp: P_var_def)
  have f: "filter (bound_calls (Port_member fs_C101 outlet pressure, Time 0)) cell_47 =
           [Setlb (Port_member fs_C101 outlet pressure, Time 0) (bar_to_Pa 1),
            Setlb (Port_member fs_C101 outlet pressure, Time 0) (bar_to_Pa 10)]"
    by (simp add: cell_47_def)
  have g: "filter (bound_calls (Port_member fs_C101 outlet pressure, Time 0))
           (cell_14 @ cell_16 @ cell_19 fw @ cell_20 @ cell_25 @ cell_27 @ cell_29 @ cell_45) = []"
    by (simp add: cell_14_def cell_16_def cell_19_def cell_20_def cell_25_def cell_27_def
        cell_29_def cell_45_def)
  have h: "bar_to_Pa 10 = 1.000 * 10 ^ 6" by (simp add: bar_to_Pa_def)
  show ?thesis using e f g h by blast
qed

section \<open>The claims\<close>

text \<open>
  Claim C4. The optimization stage unfixes the compressor outlet pressure and the heater
  outlet temperature of the square model and no other variable, declares one objective,
  which minimizes \<^verbatim>\<open>m.fs.operating_cost\<close>, and holds the reactor conversion fixed at 0.90;
  the model passed to the second solve has 2 degrees of freedom. Here \<open>m\<close> is the model
  after the first solve, in a run that has passed the assertions up to there.
\<close>

theorem optimization_relaxes_two:
  assumes "unit_models fw = Inr m0" and "units_ok m0"
      and "before_first_solve fw = Inr ma" and "solve_and_check fw ma = Inr m"
  shows "degrees_of_freedom m = 0 \<and>
         is_fixed m (Port_member fs_C101 outlet pressure, Time 0) \<and>
         is_fixed m (Port_member fs_H101 outlet temperature, Time 0) \<and>
         (\<exists>m4. optimization_problem m = Inr m4 \<and> before_second_solve m = Inr m4 \<and>
            (\<forall>w. is_fixed m4 w =
               (is_fixed m w \<and> w \<noteq> (Port_member fs_C101 outlet pressure, Time 0) \<and>
                w \<noteq> (Port_member fs_H101 outlet temperature, Time 0))) \<and>
            objectives m4 = [(''fs.objective'', operating_cost, minimize)] \<and>
            is_fixed m4 (Unit_attr fs_R101 conversion, Unindexed) \<and>
            value_of_var m4 (Unit_attr fs_R101 conversion, Unindexed) = Some 0.90 \<and>
            degrees_of_freedom m4 = 2)"
proof -
  obtain m1 m2 where st: "flowsheet fw = Inr m1" "degrees_of_freedom m1 = 20"
    "square_problem m1 = Inr m2" "degrees_of_freedom m2 = 0" "init_all fw cell_34 m2 = Inr ma"
    using before_first_solve_stages[OF assms(3)] by blast
  have m1: "m1 = built fw m0" using assms(1,2) st(1) by (rule flowsheet_is_built)
  obtain m2' where "square_problem m1 = Inr m2'" and "squared fw m0 m2'"
    using square_problem_effect[OF assms(2), of fw] m1 by blast
  then have sq: "squared fw m0 m2" using st(3) by simp
  have rv: "revalued m2 m"
    using init_all_revalued[OF st(5)] solve_and_check_revalued[OF assms(4)]
    by (rule revalued_trans)
  have d0: "degrees_of_freedom m = 0" using revalued_dof[OF rv] st(4) by simp
  have fx: "is_fixed m P_var" "is_fixed m T_var"
    using P_T_specifications by (simp_all add: square_model_fixed[OF assms(2) sq rv])
  obtain m4 where o: "optimization_problem m = Inr m4" and op: "optimized m m4"
    using optimization_problem_effect[OF assms(2) sq rv] by blast
  have d2: "degrees_of_freedom m4 = 2"
    using optimized_dof[OF assms(2) sq rv op] d0 by simp
  have b: "before_second_solve m = Inr m4"
    by (simp add: before_second_solve_def o d2 py_assert_def)
  have dc: "declared m conv_var"
    using units_declared(2)[OF assms(2) sq rv, of Unindexed] by (simp add: conv_var_def)
  have ob: "objectives m4 = [(''fs.objective'', operating_cost, minimize)]"
    using op by (simp add: optimized_def objective_def)
  have fa: "\<forall>w. is_fixed m4 w = (is_fixed m w \<and> w \<noteq> P_var \<and> w \<noteq> T_var)"
    using optimized_is_fixed[OF assms(2) sq rv op] by blast
  show ?thesis
    using d0 fx o b fa ob optimized_conversion[OF op dc] d2
    unfolding P_var_def T_var_def conv_var_def by blast
qed

theorem optimization_relaxes_two_witness:
  "\<exists>ma m m4. before_first_solve sample = Inr ma \<and> solve_and_check sample ma = Inr m \<and>
     degrees_of_freedom m = 0 \<and>
     is_fixed m (Port_member fs_C101 outlet pressure, Time 0) \<and>
     is_fixed m (Port_member fs_H101 outlet temperature, Time 0) \<and>
     before_second_solve m = Inr m4 \<and>
     \<not> is_fixed m4 (Port_member fs_C101 outlet pressure, Time 0) \<and>
     \<not> is_fixed m4 (Port_member fs_H101 outlet temperature, Time 0) \<and>
     objectives m4 = [(''fs.objective'', operating_cost, minimize)] \<and>
     value_of_var m4 (Unit_attr fs_R101 conversion, Unindexed) = Some 0.90 \<and>
     degrees_of_freedom m4 = 2"
proof -
  obtain ma m where s: "before_first_solve sample = Inr ma" "solve_and_check sample ma = Inr m"
    using sample_reaches_solves by blast
  show ?thesis
    using optimization_relaxes_two[OF sample_unit_models sample_units_ok s] s by blast
qed



text \<open>
  Claim C6. The flowsheet has exactly six arcs: the outlets of the CH4 feed and of the H2O
  feed enter the two inlets of the mixer M101, whose outlet feeds the compressor C101, whose
  outlet feeds the heater H101, whose outlet feeds the Gibbs reactor R101, whose outlet
  feeds the product PROD. The arcs neither branch nor cycle: from either feed, the route
  along the arcs is one directed path through M101, C101, H101 and R101 to PROD. Expanding
  the arcs adds, for every arc and every state variable of its ports, an active equality
  constraint between the variable of the source port and that of the destination port
  (eight for each arc), and leaves every arc expanded.
\<close>

theorem flowsheet_arcs:
  assumes "unit_models fw = Inr m0" and "units_ok m0"
  shows "\<exists>ma mb. exec_all cell_14 m0 = Inr ma \<and>
      map (\<lambda>a. (fst a, source (snd a), destination (snd a))) (arcs ma) =
        [(''fs.s01'', (fs_CH4, outlet), (fs_M101, methane_feed)),
         (''fs.s02'', (fs_H2O, outlet), (fs_M101, steam_feed)),
         (''fs.s03'', (fs_M101, outlet), (fs_C101, inlet)),
         (''fs.s04'', (fs_C101, outlet), (fs_H101, inlet)),
         (''fs.s05'', (fs_H101, outlet), (fs_R101, inlet)),
         (''fs.s06'', (fs_R101, outlet), (fs_PROD, inlet))] \<and>
      route (arcs ma) 7 fs_CH4 = Some [fs_CH4, fs_M101, fs_C101, fs_H101, fs_R101, fs_PROD] \<and>
      route (arcs ma) 7 fs_H2O = Some [fs_H2O, fs_M101, fs_C101, fs_H101, fs_R101, fs_PROD] \<and>
      exec_all cell_16 ma = Inr mb \<and>
      constraints mb = constraints m0 @ concat (map arc_equalities (arcs ma)) \<and>
      list_all (\<lambda>a. expanded (snd a)) (arcs mb) \<and>
      (\<forall>a \<in> set (arcs ma). length (arc_equalities a) = 8 \<and>
         (\<forall>sv. \<forall>i \<in> set (member_indices sv).
            (fst a @ ''_expanded'',
             \<lparr>body_lhs = Var (Port_member (fst (source (snd a))) (snd (source (snd a))) sv, i),
              body_rhs = Var (Port_member (fst (destination (snd a)))
                                (snd (destination (snd a))) sv, i),
              equality = True, active = True\<rparr>) \<in> set (constraints mb)))"
proof -
  let ?ma = "m0\<lparr>arcs := arcs m0 @ six_arcs\<rparr>"
  have a0: "arcs m0 = []" using assms(2) by (simp add: units_ok_def)
  have a: "exec_all cell_14 m0 = Inr ?ma"
    using units_ok_has_port[OF assms(2)] units_ok_names[OF assms(2)] by (rule cell_14_effect)
  have am: "arcs ?ma = six_arcs" by (simp add: a0)
  have l: "map (\<lambda>a. (fst a, source (snd a), destination (snd a))) (arcs ?ma) =
        [(''fs.s01'', (fs_CH4, outlet), (fs_M101, methane_feed)),
         (''fs.s02'', (fs_H2O, outlet), (fs_M101, steam_feed)),
         (''fs.s03'', (fs_M101, outlet), (fs_C101, inlet)),
         (''fs.s04'', (fs_C101, outlet), (fs_H101, inlet)),
         (''fs.s05'', (fs_H101, outlet), (fs_R101, inlet)),
         (''fs.s06'', (fs_R101, outlet), (fs_PROD, inlet))]"
    unfolding am by (simp add: six_arcs_def)
  have r: "route (arcs ?ma) 7 fs_CH4 = Some [fs_CH4, fs_M101, fs_C101, fs_H101, fs_R101, fs_PROD]"
    "route (arcs ?ma) 7 fs_H2O = Some [fs_H2O, fs_M101, fs_C101, fs_H101, fs_R101, fs_PROD]"
    unfolding am by (simp_all add: six_arcs_def downstream_def eval_nat_numeral)
  have b: "exec_all cell_16 ?ma = Inr (expand_arcs ?ma)" by (simp add: cell_16_def)
  have c: "constraints (expand_arcs ?ma) = constraints m0 @ concat (map arc_equalities (arcs ?ma))"
    unfolding am by (simp add: expand_arcs_def a0) (simp add: six_arcs_def)
  have e: "list_all (\<lambda>a. expanded (snd a)) (arcs (expand_arcs ?ma))"
    by (auto simp: expand_arcs_def list_all_iff)
  have m: "\<forall>a \<in> set (arcs ?ma). length (arc_equalities a) = 8 \<and>
         (\<forall>sv. \<forall>i \<in> set (member_indices sv).
            (fst a @ ''_expanded'',
             \<lparr>body_lhs = Var (Port_member (fst (source (snd a))) (snd (source (snd a))) sv, i),
              body_rhs = Var (Port_member (fst (destination (snd a)))
                                (snd (destination (snd a))) sv, i),
              equality = True, active = True\<rparr>) \<in> set (constraints (expand_arcs ?ma)))"
  proof (intro ballI conjI allI)
    fix a
    assume "a \<in> set (arcs ?ma)"
    show "length (arc_equalities a) = 8" by (rule length_arc_equalities)
  next
    fix a sv i
    assume a: "a \<in> set (arcs ?ma)" and i: "i \<in> set (member_indices sv)"
    have "(fst a @ ''_expanded'',
             \<lparr>body_lhs = Var (Port_member (fst (source (snd a))) (snd (source (snd a))) sv, i),
              body_rhs = Var (Port_member (fst (destination (snd a)))
                                (snd (destination (snd a))) sv, i),
              equality = True, active = True\<rparr>) \<in> set (arc_equalities a)"
      using i by (rule arc_equalities_member)
    then show "(fst a @ ''_expanded'',
             \<lparr>body_lhs = Var (Port_member (fst (source (snd a))) (snd (source (snd a))) sv, i),
              body_rhs = Var (Port_member (fst (destination (snd a)))
                                (snd (destination (snd a))) sv, i),
              equality = True, active = True\<rparr>) \<in> set (constraints (expand_arcs ?ma))"
      unfolding c using a by auto
  qed
  show ?thesis
    by (rule exI[of _ ?ma], rule exI[of _ "expand_arcs ?ma"]) (intro conjI a l r b c e m)
qed

theorem flowsheet_arcs_witness:
  "\<exists>ma mb. exec_all cell_14 sample_units = Inr ma \<and> length (arcs ma) = 6 \<and>
     route (arcs ma) 7 fs_CH4 = Some [fs_CH4, fs_M101, fs_C101, fs_H101, fs_R101, fs_PROD] \<and>
     route (arcs ma) 7 fs_H2O = Some [fs_H2O, fs_M101, fs_C101, fs_H101, fs_R101, fs_PROD] \<and>
     exec_all cell_16 ma = Inr mb \<and>
     constraints mb = constraints sample_units @ concat (map arc_equalities (arcs ma)) \<and>
     list_all (\<lambda>a. expanded (snd a)) (arcs mb)"
proof -
  from flowsheet_arcs[OF sample_unit_models sample_units_ok]
  obtain ma mb where s: "exec_all cell_14 sample_units = Inr ma"
    "map (\<lambda>a. (fst a, source (snd a), destination (snd a))) (arcs ma) =
        [(''fs.s01'', (fs_CH4, outlet), (fs_M101, methane_feed)),
         (''fs.s02'', (fs_H2O, outlet), (fs_M101, steam_feed)),
         (''fs.s03'', (fs_M101, outlet), (fs_C101, inlet)),
         (''fs.s04'', (fs_C101, outlet), (fs_H101, inlet)),
         (''fs.s05'', (fs_H101, outlet), (fs_R101, inlet)),
         (''fs.s06'', (fs_R101, outlet), (fs_PROD, inlet))]"
    "route (arcs ma) 7 fs_CH4 = Some [fs_CH4, fs_M101, fs_C101, fs_H101, fs_R101, fs_PROD]"
    "route (arcs ma) 7 fs_H2O = Some [fs_H2O, fs_M101, fs_C101, fs_H101, fs_R101, fs_PROD]"
    "exec_all cell_16 ma = Inr mb"
    "constraints mb = constraints sample_units @ concat (map arc_equalities (arcs ma))"
    "list_all (\<lambda>a. expanded (snd a)) (arcs mb)"
    by (elim exE conjE) (rule that)
  have "length (map (\<lambda>a. (fst a, source (snd a), destination (snd a))) (arcs ma)) = 6"
    unfolding s(2) by simp
  then have "length (arcs ma) = 6" by simp
  then show ?thesis
    by (intro exI[of _ ma] exI[of _ mb] conjI s(1,3-7))
qed

text \<open>
  Claim C7. The reactor conversion is a variable with bounds 0 and 1, and the constraint
  \<^verbatim>\<open>conv_constraint\<close> says conversion * F_in * x_in = F_in * x_in - F_out * x_out for
  the molar flows and CH4 mole fractions at the inlet and outlet of R101. At any point that
  satisfies it and has a nonzero CH4 flow at the inlet, the conversion is the fraction of
  that flow which does not leave the reactor.
\<close>

theorem conversion_constraint:
  assumes "unit_models fw = Inr m0" and "units_ok m0" and "flowsheet fw = Inr m1"
  shows "\<exists>m2. square_problem m1 = Inr m2 \<and>
           bounds_of m2 (Unit_attr fs_R101 conversion, Unindexed) = Inr (Some 0, Some 1) \<and>
           (''fs.R101.conv_constraint'',
            \<lparr>body_lhs = conv_lhs, body_rhs = conv_rhs, equality = True, active = True\<rparr>)
             \<in> set (constraints m2) \<and>
           (\<forall>x. eval x conv_lhs =
                  x (Unit_attr fs_R101 conversion, Unindexed)
                  * x (Port_member fs_R101 inlet flow_mol, Time 0)
                  * x (Port_member fs_R101 inlet mole_frac_comp, Time_comp 0 CH4) \<and>
                eval x conv_rhs =
                  x (Port_member fs_R101 inlet flow_mol, Time 0)
                  * x (Port_member fs_R101 inlet mole_frac_comp, Time_comp 0 CH4)
                  - x (Port_member fs_R101 outlet flow_mol, Time 0)
                    * x (Port_member fs_R101 outlet mole_frac_comp, Time_comp 0 CH4) \<and>
                (eval x conv_lhs = eval x conv_rhs \<longrightarrow>
                 x (Port_member fs_R101 inlet flow_mol, Time 0)
                   * x (Port_member fs_R101 inlet mole_frac_comp, Time_comp 0 CH4) \<noteq> 0 \<longrightarrow>
                 x (Unit_attr fs_R101 conversion, Unindexed) =
                   (x (Port_member fs_R101 inlet flow_mol, Time 0)
                      * x (Port_member fs_R101 inlet mole_frac_comp, Time_comp 0 CH4)
                    - x (Port_member fs_R101 outlet flow_mol, Time 0)
                      * x (Port_member fs_R101 outlet mole_frac_comp, Time_comp 0 CH4))
                   / (x (Port_member fs_R101 inlet flow_mol, Time 0)
                      * x (Port_member fs_R101 inlet mole_frac_comp, Time_comp 0 CH4))))"
proof -
  have m1: "m1 = built fw m0" using assms by (rule flowsheet_is_built)
  obtain m2 where sp: "square_problem m1 = Inr m2" and sq: "squared fw m0 m2"
    using square_problem_effect[OF assms(2), of fw] m1 by blast
  have b: "bounds_of m2 (Unit_attr fs_R101 conversion, Unindexed) = Inr (Some 0, Some 1)"
    using squared_conversion[OF sq] by (simp add: bounds_of_def conv_var_def conv_data_def)
  have c: "(''fs.R101.conv_constraint'',
            \<lparr>body_lhs = conv_lhs, body_rhs = conv_rhs, equality = True, active = True\<rparr>)
             \<in> set (constraints m2)"
    using sq by (simp add: squared_def conv_constraint_def)
  have e: "\<forall>x. eval x conv_lhs =
                  x (Unit_attr fs_R101 conversion, Unindexed)
                  * x (Port_member fs_R101 inlet flow_mol, Time 0)
                  * x (Port_member fs_R101 inlet mole_frac_comp, Time_comp 0 CH4) \<and>
                eval x conv_rhs =
                  x (Port_member fs_R101 inlet flow_mol, Time 0)
                  * x (Port_member fs_R101 inlet mole_frac_comp, Time_comp 0 CH4)
                  - x (Port_member fs_R101 outlet flow_mol, Time 0)
                    * x (Port_member fs_R101 outlet mole_frac_comp, Time_comp 0 CH4) \<and>
                (eval x conv_lhs = eval x conv_rhs \<longrightarrow>
                 x (Port_member fs_R101 inlet flow_mol, Time 0)
                   * x (Port_member fs_R101 inlet mole_frac_comp, Time_comp 0 CH4) \<noteq> 0 \<longrightarrow>
                 x (Unit_attr fs_R101 conversion, Unindexed) =
                   (x (Port_member fs_R101 inlet flow_mol, Time 0)
                      * x (Port_member fs_R101 inlet mole_frac_comp, Time_comp 0 CH4)
                    - x (Port_member fs_R101 outlet flow_mol, Time 0)
                      * x (Port_member fs_R101 outlet mole_frac_comp, Time_comp 0 CH4))
                   / (x (Port_member fs_R101 inlet flow_mol, Time 0)
                      * x (Port_member fs_R101 inlet mole_frac_comp, Time_comp 0 CH4)))"
    by (auto simp: conv_lhs_def conv_rhs_def field_simps)
  show ?thesis using sp b c e by blast
qed

theorem conversion_constraint_witness:
  "\<exists>m1 m2. flowsheet sample = Inr m1 \<and> square_problem m1 = Inr m2 \<and>
     bounds_of m2 (Unit_attr fs_R101 conversion, Unindexed) = Inr (Some 0, Some 1) \<and>
     eval sample_point conv_lhs = 60 \<and> eval sample_point conv_rhs = 60 \<and>
     sample_point (Port_member fs_R101 inlet flow_mol, Time 0)
       * sample_point (Port_member fs_R101 inlet mole_frac_comp, Time_comp 0 CH4) = 75 \<and>
     sample_point (Port_member fs_R101 outlet flow_mol, Time 0)
       * sample_point (Port_member fs_R101 outlet mole_frac_comp, Time_comp 0 CH4) = 15 \<and>
     sample_point (Unit_attr fs_R101 conversion, Unindexed) = (75 - 15) / 75"
proof -
  obtain m2 where s: "square_problem (built sample sample_units) = Inr m2"
    "bounds_of m2 (Unit_attr fs_R101 conversion, Unindexed) = Inr (Some 0, Some 1)"
    using conversion_constraint[OF sample_unit_models sample_units_ok sample_flowsheet] by blast
  have "eval sample_point conv_lhs = 60" "eval sample_point conv_rhs = 60"
    "sample_point (Port_member fs_R101 inlet flow_mol, Time 0)
       * sample_point (Port_member fs_R101 inlet mole_frac_comp, Time_comp 0 CH4) = 75"
    "sample_point (Port_member fs_R101 outlet flow_mol, Time 0)
       * sample_point (Port_member fs_R101 outlet mole_frac_comp, Time_comp 0 CH4) = 15"
    "sample_point (Unit_attr fs_R101 conversion, Unindexed) = (75 - 15) / 75"
    by (simp_all add: conv_lhs_def conv_rhs_def sample_point_def)
  then show ?thesis using s sample_flowsheet by blast
qed

text \<open>
  Claim C8. Cell 47 calls \<^verbatim>\<open>setlb\<close> twice on the compressor outlet pressure, with 1 bar
  and then with 10 bar, and never \<^verbatim>\<open>setub\<close>. The second call carries the comment
  \<^verbatim>\<open>at most, pressurize to ...\<close>, as the call \<^verbatim>\<open>setub(1000 K)\<close> on the heater outlet
  temperature carries \<^verbatim>\<open>at most, heat to 1000 K\<close>: an upper bound of 10 bar was meant
  and a lower bound is what is set. On the sample framework the variable is built with the
  bounds 5e4 Pa and 1e8 Pa and enters the second solve with the bounds 1e6 Pa and 1e8 Pa:
  the lower bound of the first call is overwritten, the upper bound is the one the variable
  was built with, and the pressure is nowhere limited to 10 bar.
\<close>

theorem pressure_lower_bound_set_twice:
  "filter (bound_calls (Port_member fs_C101 outlet pressure, Time 0)) cell_47 =
     [Setlb (Port_member fs_C101 outlet pressure, Time 0) (bar_to_Pa 1),
      Setlb (Port_member fs_C101 outlet pressure, Time 0) (bar_to_Pa 10)] \<and>
   filter (bound_calls (Port_member fs_H101 outlet temperature, Time 0)) cell_47 =
     [Setub (Port_member fs_H101 outlet temperature, Time 0) 1000] \<and>
   bar_to_Pa 1 = 10 ^ 5 \<and> bar_to_Pa 10 = 10 ^ 6 \<and>
   bounds_of sample_units (Port_member fs_C101 outlet pressure, Time 0) =
     Inr (Some (5 * 10 ^ 4), Some (10 ^ 8)) \<and>
   second_solve_bounds sample (Port_member fs_C101 outlet pressure, Time 0) =
     Inr (Some (10 ^ 6), Some (10 ^ 8))"
proof -
  obtain ma m mb where s: "before_first_solve sample = Inr ma"
    "solve_and_check sample ma = Inr m" "square_results sample m = Inr m"
    "before_second_solve m = Inr mb"
    using sample_reaches_solves by blast
  obtain m4 where b: "before_second_solve m = Inr m4"
    "bounds_of m4 (Port_member fs_C101 outlet pressure, Time 0) =
       Inr (Some (10 ^ 6), Some (10 ^ 8))"
    using pressure_bounds_second_solve[OF sample_unit_models sample_units_ok s(1,2)
        sample_pressure_bounds] by blast
  have "second_solve_bounds sample (Port_member fs_C101 outlet pressure, Time 0) =
     Inr (Some (10 ^ 6), Some (10 ^ 8))"
    using b by (simp add: second_solve_bounds_def s)
  then show ?thesis
    using sample_pressure_bounds by (simp add: cell_47_def bar_to_Pa_def)
qed

text \<open>
  Claim C9. The operating cost is the expression
  3600 * 8000 * (2.2e-7 * H101 heat duty + 0.212e-7 * R101 heat duty + 0.12e-5 * C101
  isentropic work), linear in the two duties and the work; the hydrogen production is the
  molar flow at the PROD inlet times its H2 mole fraction times the molecular weight of H2,
  times the factor of the unit conversion to MM lb/year. Both are declared as expressions:
  cells 19 and 20 consist of expression declarations, which leave every variable as it is.
  An assignment replaces a component whose name is taken, so the rest is stated for names
  that are free: the two cells then add the five named expressions, leave the constraints as
  they are, and the degrees of freedom are the same before and after. In the notebook the
  names are free: for unit models that meet \<open>units_ok\<close>, cells 19 and 20 run on the model
  that cells 14 and 16 leave, and the flowsheet has the degrees of freedom of that model.
\<close>

theorem cost_expressions:
  "eval x operating_cost =
     3600 * 8000 * (2.2 / 10 ^ 7 * x (Unit_attr fs_H101 heat_duty, Time 0)
                    + 0.212 / 10 ^ 7 * x (Unit_attr fs_R101 heat_duty, Time 0)
                    + 0.12 / 10 ^ 5 * x (Unit_attr fs_C101 work_isentropic, Time 0)) \<and>
   eval x (hyd_prod fw) =
     Mlb_yr_per_kg_s fw * (x (Port_member fs_PROD inlet flow_mol, Time 0)
                           * x (Port_member fs_PROD inlet mole_frac_comp, Time_comp 0 H2)
                           * H2_mw fw) \<and>
   list_all is_expression (cell_19 fw @ cell_20) \<and>
   (exec_all (cell_19 fw @ cell_20) m = Inr m' \<longrightarrow>
      vars m' = vars m \<and>
      (list_all (\<lambda>n. n \<notin> set (component_names m))
         [''fs.hyd_prod'', ''fs.cooling_cost'', ''fs.heating_cost'', ''fs.compression_cost'',
          ''fs.operating_cost''] \<longrightarrow>
       expressions m' =
         expressions m @
         [(''fs.hyd_prod'', hyd_prod fw), (''fs.cooling_cost'', cooling_cost),
          (''fs.heating_cost'', heating_cost), (''fs.compression_cost'', compression_cost),
          (''fs.operating_cost'', operating_cost)] \<and>
       constraints m' = constraints m \<and>
       degrees_of_freedom m' = degrees_of_freedom m)) \<and>
   (unit_models fw = Inr m0 \<and> units_ok m0 \<longrightarrow>
      (\<exists>ma m1. exec_all (cell_14 @ cell_16) m0 = Inr ma \<and>
         exec_all (cell_19 fw @ cell_20) ma = Inr m1 \<and> flowsheet fw = Inr m1 \<and>
         expressions m1 =
           expressions ma @
           [(''fs.hyd_prod'', hyd_prod fw), (''fs.cooling_cost'', cooling_cost),
            (''fs.heating_cost'', heating_cost), (''fs.compression_cost'', compression_cost),
            (''fs.operating_cost'', operating_cost)] \<and>
         vars m1 = vars ma \<and> constraints m1 = constraints ma \<and>
         degrees_of_freedom m1 = degrees_of_freedom ma))"
proof -
  have a: "eval x operating_cost =
     3600 * 8000 * (2.2 / 10 ^ 7 * x (Unit_attr fs_H101 heat_duty, Time 0)
                    + 0.212 / 10 ^ 7 * x (Unit_attr fs_R101 heat_duty, Time 0)
                    + 0.12 / 10 ^ 5 * x (Unit_attr fs_C101 work_isentropic, Time 0))"
    by (simp add: operating_cost_def heating_cost_def cooling_cost_def compression_cost_def)
  have b: "eval x (hyd_prod fw) =
     Mlb_yr_per_kg_s fw * (x (Port_member fs_PROD inlet flow_mol, Time 0)
                           * x (Port_member fs_PROD inlet mole_frac_comp, Time_comp 0 H2)
                           * H2_mw fw)"
    by (simp add: hyd_prod_def)
  have c: "list_all is_expression (cell_19 fw @ cell_20)"
    by (simp add: cell_19_def cell_20_def)
  have fresh: "expressions m' =
         expressions m @
         [(''fs.hyd_prod'', hyd_prod fw), (''fs.cooling_cost'', cooling_cost),
          (''fs.heating_cost'', heating_cost), (''fs.compression_cost'', compression_cost),
          (''fs.operating_cost'', operating_cost)] \<and>
       vars m' = vars m \<and> constraints m' = constraints m \<and>
       degrees_of_freedom m' = degrees_of_freedom m"
    if r: "exec_all (cell_19 fw @ cell_20) m = Inr m'"
      and f: "list_all (\<lambda>n. n \<notin> set (component_names m))
         [''fs.hyd_prod'', ''fs.cooling_cost'', ''fs.heating_cost'', ''fs.compression_cost'',
          ''fs.operating_cost'']"
    for m m'
  proof -
    have e: "m' = m\<lparr>expressions := expressions m @ five_expressions fw\<rparr>"
      using r f by (rule cells_19_20_fresh)
    have "degrees_of_freedom m' = degrees_of_freedom m"
      by (rule dof_cong) (simp_all add: e is_fixed_def lookup_var_def)
    then show ?thesis by (simp add: e five_expressions_def)
  qed
  have d: "vars m' = vars m \<and>
      (list_all (\<lambda>n. n \<notin> set (component_names m))
         [''fs.hyd_prod'', ''fs.cooling_cost'', ''fs.heating_cost'', ''fs.compression_cost'',
          ''fs.operating_cost''] \<longrightarrow>
       expressions m' =
         expressions m @
         [(''fs.hyd_prod'', hyd_prod fw), (''fs.cooling_cost'', cooling_cost),
          (''fs.heating_cost'', heating_cost), (''fs.compression_cost'', compression_cost),
          (''fs.operating_cost'', operating_cost)] \<and>
       constraints m' = constraints m \<and>
       degrees_of_freedom m' = degrees_of_freedom m)"
    if r: "exec_all (cell_19 fw @ cell_20) m = Inr m'"
    using exec_all_expressions[OF c r] fresh[OF r] by blast
  have g: "\<exists>ma m1. exec_all (cell_14 @ cell_16) m0 = Inr ma \<and>
         exec_all (cell_19 fw @ cell_20) ma = Inr m1 \<and> flowsheet fw = Inr m1 \<and>
         expressions m1 =
           expressions ma @
           [(''fs.hyd_prod'', hyd_prod fw), (''fs.cooling_cost'', cooling_cost),
            (''fs.heating_cost'', heating_cost), (''fs.compression_cost'', compression_cost),
            (''fs.operating_cost'', operating_cost)] \<and>
         vars m1 = vars ma \<and> constraints m1 = constraints ma \<and>
         degrees_of_freedom m1 = degrees_of_freedom ma"
    if u: "unit_models fw = Inr m0" and ok: "units_ok m0"
  proof -
    let ?e = "expand_arcs (m0\<lparr>arcs := arcs m0 @ six_arcs\<rparr>)"
    have A: "exec_all (cell_14 @ cell_16) m0 = Inr ?e" using ok by (rule cells_14_16_effect)
    have F: "flowsheet fw = Inr (built fw m0)" using u ok by (rule flowsheet_built)
    then have "exec_all ((cell_14 @ cell_16) @ (cell_19 fw @ cell_20)) m0 = Inr (built fw m0)"
      by (simp add: flowsheet_def u)
    then have B: "exec_all (cell_19 fw @ cell_20) ?e = Inr (built fw m0)"
      unfolding exec_all_append[of "cell_14 @ cell_16"] A by simp
    show ?thesis
      using A B F fresh[OF B expanded_names_fresh[OF ok]] by blast
  qed
  show ?thesis using a b c d g by blast
qed

theorem cost_expressions_witness:
  "\<exists>ma m1. exec_all (cell_14 @ cell_16) sample_units = Inr ma \<and>
     exec_all (cell_19 sample @ cell_20) ma = Inr m1 \<and> flowsheet sample = Inr m1 \<and>
     length (expressions m1) = length (expressions ma) + 5 \<and>
     degrees_of_freedom ma = 20 \<and> degrees_of_freedom m1 = 20"
proof -
  obtain ma m1 where s: "exec_all (cell_14 @ cell_16) sample_units = Inr ma"
    "exec_all (cell_19 sample @ cell_20) ma = Inr m1" "flowsheet sample = Inr m1"
    "expressions m1 =
           expressions ma @
           [(''fs.hyd_prod'', hyd_prod sample), (''fs.cooling_cost'', cooling_cost),
            (''fs.heating_cost'', heating_cost), (''fs.compression_cost'', compression_cost),
            (''fs.operating_cost'', operating_cost)]"
    "degrees_of_freedom m1 = degrees_of_freedom ma"
    using cost_expressions[where fw = sample and ?m0.0 = sample_units, THEN conjunct2,
        THEN conjunct2, THEN conjunct2, THEN conjunct2] sample_unit_models sample_units_ok
    by blast
  have "m1 = built sample sample_units" using s(3) sample_flowsheet by simp
  then have "degrees_of_freedom m1 = 20" using sample_dof_20 by simp
  then show ?thesis using s by (intro exI[of _ ma] exI[of _ m1]) simp
qed

end
